theory Spec2Isabelle
  imports
    Main
    "HOL-Library.Char_ord"
    "HOL-Library.List_Lexorder"
    "HOL-Library.Product_Lexorder"
    "HOL-Library.FSet"
begin

section \<open>The documentation index of krpc-mcp (\<^verbatim>\<open>src/krpc_mcp/server.py\<close>)\<close>

text \<open>
  A shallow embedding of the crawler, the page and member store, the search ranker, the
  page lookup and the member resolver of \<^verbatim>\<open>server.py\<close>.

  Python strings are modelled as \<open>string\<close>: a list of characters, each a code point
  below 256. The string methods the source calls (\<^verbatim>\<open>lower\<close>, \<^verbatim>\<open>strip\<close>,
  \<^verbatim>\<open>split\<close>, \<^verbatim>\<open>find\<close>, \<^verbatim>\<open>in\<close>, slices) are defined here as
  CPython computes them on such strings. Exceptions are values: a function that can
  raise returns \<open>error + 'a\<close>. The network, the HTML parser, the clock and two library
  functions that are not string manipulation are fields of an environment record.
\<close>

subsection \<open>Python strings\<close>

text \<open>\<^verbatim>\<open>str.isspace\<close> on one character: the code points 9-13, 28-32, 133 and 160.\<close>

definition is_space :: "char \<Rightarrow> bool" where
  "is_space c = (of_char c \<in> {9, 10, 11, 12, 13, 28, 29, 30, 31, 32, 133, 160 :: nat})"

text \<open>\<^verbatim>\<open>str.lower\<close>: A-Z and the Latin-1 capitals 192-222 (without 215) move up by 32.\<close>

definition lower_char :: "char \<Rightarrow> char" where
  "lower_char c =
     (let n = (of_char c :: nat)
      in if (65 \<le> n \<and> n \<le> 90) \<or> (192 \<le> n \<and> n \<le> 222 \<and> n \<noteq> 215)
         then char_of (n + 32) else c)"

definition lower :: "string \<Rightarrow> string" where
  "lower s = map lower_char s"

text \<open>\<^verbatim>\<open>s.lstrip()\<close>, \<^verbatim>\<open>s.strip()\<close> and \<^verbatim>\<open>s.lstrip(chars)\<close>.\<close>

definition lstrip :: "string \<Rightarrow> string" where
  "lstrip s = dropWhile is_space s"

definition strip :: "string \<Rightarrow> string" where
  "strip s = rev (dropWhile is_space (rev (dropWhile is_space s)))"

definition lstrip_chars :: "string \<Rightarrow> string \<Rightarrow> string" where
  "lstrip_chars s cs = dropWhile (\<lambda>c. c \<in> set cs) s"

text \<open>
  \<^verbatim>\<open>s.startswith(p)\<close> and \<^verbatim>\<open>s.endswith(p)\<close>. The operations that do not look at the
  characters themselves (\<open>startswith\<close>, \<open>find_str\<close>, \<open>contains\<close>, \<open>join\<close>, \<open>slice\<close>) are
  defined for lists of any type, so that they also serve for the wider alphabet of page text
  below.
\<close>

definition startswith :: "'a list \<Rightarrow> 'a list \<Rightarrow> bool" where
  "startswith s p = (take (length p) s = p)"

definition endswith :: "string \<Rightarrow> string \<Rightarrow> bool" where
  "endswith s p = (length p \<le> length s \<and> drop (length s - length p) s = p)"

text \<open>
  \<^verbatim>\<open>s.find(sub)\<close>: the lowest index at which \<open>sub\<close> starts in \<open>s\<close>, or -1. The first
  argument of \<open>find_from\<close> counts the characters already passed.
\<close>

fun find_from :: "nat \<Rightarrow> 'a list \<Rightarrow> 'a list \<Rightarrow> int" where
  "find_from i [] sub = (if sub = [] then int i else - 1)"
| "find_from i (c # cs) sub =
     (if startswith (c # cs) sub then int i else find_from (Suc i) cs sub)"

definition find_str :: "'a list \<Rightarrow> 'a list \<Rightarrow> int" where
  "find_str s sub = find_from 0 s sub"

text \<open>\<^verbatim>\<open>sub in s\<close>.\<close>

fun contains :: "'a list \<Rightarrow> 'a list \<Rightarrow> bool" where
  "contains [] sub = (sub = [])"
| "contains (c # cs) sub = (startswith (c # cs) sub \<or> contains cs sub)"

text \<open>
  \<^verbatim>\<open>s.split()\<close>: the maximal runs of characters that are not whitespace. The first
  argument of \<open>words_acc\<close> is the run being read.
\<close>

fun words_acc :: "string \<Rightarrow> string \<Rightarrow> string list" where
  "words_acc cur [] = (if cur = [] then [] else [cur])"
| "words_acc cur (c # cs) =
     (if is_space c then (if cur = [] then words_acc [] cs else cur # words_acc [] cs)
      else words_acc (cur @ [c]) cs)"

definition split_ws :: "string \<Rightarrow> string list" where
  "split_ws s = words_acc [] s"

text \<open>\<^verbatim>\<open>sep.join(xs)\<close>.\<close>

fun join :: "'a list \<Rightarrow> 'a list list \<Rightarrow> 'a list" where
  "join sep [] = []"
| "join sep [x] = x"
| "join sep (x # y # ys) = x @ sep @ join sep (y # ys)"

text \<open>\<^verbatim>\<open>" ".join(s.split())\<close>, which the source uses for snippets and signatures.\<close>

definition collapse_ws :: "string \<Rightarrow> string" where
  "collapse_ws s = join '' '' (split_ws s)"

text \<open>\<^verbatim>\<open>s[a:b]\<close> for indices that are not negative.\<close>

definition slice :: "'a list \<Rightarrow> nat \<Rightarrow> nat \<Rightarrow> 'a list" where
  "slice s a b = drop a (take b s)"

text \<open>
  \<^verbatim>\<open>s.split(sep)[-1]\<close> for a separator that is not empty: what follows the last of the
  occurrences of \<open>sep\<close> that \<^verbatim>\<open>split\<close> finds from left to right without overlap, or
  all of \<open>s\<close> when there is none. The first argument is the piece being read.
\<close>

fun last_piece_acc :: "string \<Rightarrow> string \<Rightarrow> string \<Rightarrow> string" where
  "last_piece_acc cur sep [] = cur"
| "last_piece_acc cur sep (c # cs) =
     (if startswith (c # cs) sep \<and> sep \<noteq> []
      then last_piece_acc [] sep (drop (length sep) (c # cs))
      else last_piece_acc (cur @ [c]) sep cs)"

definition last_piece :: "string \<Rightarrow> string \<Rightarrow> string" where
  "last_piece s sep = last_piece_acc [] sep s"

subsection \<open>Data\<close>

text \<open>The dataclass \<^verbatim>\<open>DocPage\<close>.\<close>

record DocPage =
  page_url :: string
  page_slug :: string
  page_title :: string
  page_text :: string

text \<open>
  What the source reads of a fetched and parsed page (a \<^verbatim>\<open>BeautifulSoup\<close> object):
  per \<^verbatim>\<open>dt[id]\<close> element its \<^verbatim>\<open>id\<close> attribute, its \<^verbatim>\<open>get_text(" ", strip=True)\<close> and
  the same text of the \<^verbatim>\<open>dd\<close> sibling that follows it, if there is one; the text of the
  \<^verbatim>\<open>title\<close> element, if there is one; \<^verbatim>\<open>get_text("\n", strip=True)\<close> of the main
  region; and the \<^verbatim>\<open>href\<close> attributes of the \<^verbatim>\<open>a[href]\<close> elements, in document order.
\<close>

record dt_elem =
  dt_id :: string
  dt_text :: string
  dd_text :: "string option"

record soup =
  title_text :: "string option"
  main_text :: string
  dts :: "dt_elem list"
  hrefs :: "string list"

datatype error = ValueError

text \<open>
  The project names no Python release, and \<^verbatim>\<open>urllib.parse\<close> differs between releases in
  what \<^verbatim>\<open>normalize_url\<close> computes. Two releases are modelled, the two whose
  \<^verbatim>\<open>urllib/parse.py\<close> the definitions below were translated from.
\<close>

datatype cpython = CPython_3_11_10 | CPython_3_12_3

text \<open>
  The environment: \<open>library\<close> is the Python release; \<open>http_get\<close> is \<^verbatim>\<open>session.get\<close>,
  \<^verbatim>\<open>raise_for_status\<close> and the HTML parser together (\<open>None\<close> for a
  \<^verbatim>\<open>RequestException\<close>); \<open>urljoin\<close> is \<^verbatim>\<open>urllib.parse.urljoin\<close>, which can raise
  \<^verbatim>\<open>ValueError\<close>; \<open>bracketed_host_ok\<close> says that \<^verbatim>\<open>urllib.parse._check_bracketed_host\<close>
  accepts a host written in brackets; \<open>now_check\<close> and \<open>now_stamp\<close> are the clock (in
  microseconds) as \<^verbatim>\<open>is_stale\<close> and as \<^verbatim>\<open>reindex\<close> read it.
\<close>

record env =
  library :: cpython
  bracketed_host_ok :: "string \<Rightarrow> bool"
  urljoin :: "string \<Rightarrow> string \<Rightarrow> error + string"
  http_get :: "string \<Rightarrow> soup option"
  now_check :: int
  now_stamp :: int

text \<open>
  A Python \<^verbatim>\<open>dict\<close> keeps its keys in the order of their first insertion: an association
  list. \<^verbatim>\<open>d[k] = v\<close> replaces the value of a key in place and appends a new key.
\<close>

fun dict_set :: "('k \<times> 'v) list \<Rightarrow> 'k \<Rightarrow> 'v \<Rightarrow> ('k \<times> 'v) list" where
  "dict_set [] k v = [(k, v)]"
| "dict_set ((k', v') # d) k v =
     (if k' = k then (k, v) # d else (k', v') # dict_set d k v)"

definition dict_get :: "('k \<times> 'v) list \<Rightarrow> 'k \<Rightarrow> 'v option" where
  "dict_get d k = map_of d k"

definition dict_values :: "('k \<times> 'v) list \<Rightarrow> 'v list" where
  "dict_values d = map snd d"

text \<open>\<^verbatim>\<open>entry.get(k, "")\<close> on a member record.\<close>

definition get_or_empty :: "(string \<times> string) list \<Rightarrow> string \<Rightarrow> string" where
  "get_or_empty entry k = (case map_of entry k of None \<Rightarrow> [] | Some v \<Rightarrow> v)"

type_synonym member_dict = "(string \<times> (string \<times> string) list) list"

text \<open>
  The attributes of \<^verbatim>\<open>DocIndex\<close>. \<open>disk\<close> is what \<^verbatim>\<open>_save_to_disk\<close> wrote last: the
  pages, the members and the time stamp.
\<close>

record index_state =
  pages :: "(string \<times> DocPage) list"
  members :: member_dict
  indexed_at :: "int option"
  disk :: "(DocPage list \<times> member_dict \<times> int) option"

subsection \<open>Constants\<close>

definition ROOT_URL :: string where
  "ROOT_URL = ''https://krpc.github.io/krpc/python.html''"

definition ALLOWED_PREFIX :: string where
  "ALLOWED_PREFIX = ''https://krpc.github.io/krpc/python''"

definition MAX_PAGES :: nat where
  "MAX_PAGES = 300"

definition MAX_PAGE_CHARS :: nat where
  "MAX_PAGE_CHARS = 20000"

subsection \<open>\<^verbatim>\<open>urllib.parse\<close> as of CPython 3.11.10 and 3.12.3\<close>

text \<open>
  The two releases differ in three places: the list \<^verbatim>\<open>uses_netloc\<close>, the check of a
  network location written with brackets, and the condition under which \<^verbatim>\<open>urlunsplit\<close>
  writes \<open>//\<close>.
\<close>

definition uses_netloc :: "cpython \<Rightarrow> string list" where
  "uses_netloc lib =
     ['''', ''ftp'', ''http'', ''gopher'', ''nntp'', ''telnet'', ''imap'', ''wais'',
      ''file'', ''mms'', ''https'', ''shttp'', ''snews'', ''prospero'', ''rtsp'', ''rtsps'',
      ''rtspu'', ''rsync'', ''svn'', ''svn+ssh'', ''sftp'', ''nfs'', ''git'', ''git+ssh'', ''ws'',
      ''wss'']
     @ (case lib of CPython_3_11_10 \<Rightarrow> [] | CPython_3_12_3 \<Rightarrow> [''itms-services''])"

definition uses_params :: "string list" where
  "uses_params = ['''', ''ftp'', ''hdl'', ''prospero'', ''http'', ''imap'', ''https'', ''shttp'',
     ''rtsp'', ''rtsps'', ''rtspu'', ''sip'', ''sips'', ''mms'', ''sftp'', ''tel'']"

definition scheme_chars :: string where
  "scheme_chars = ''abcdefghijklmnopqrstuvwxyzABCDEFGHIJKLMNOPQRSTUVWXYZ0123456789+-.''"

text \<open>\<^verbatim>\<open>c.isascii() and c.isalpha()\<close>.\<close>

definition is_ascii_alpha :: "char \<Rightarrow> bool" where
  "is_ascii_alpha c =
     (let n = (of_char c :: nat) in (65 \<le> n \<and> n \<le> 90) \<or> (97 \<le> n \<and> n \<le> 122))"

text \<open>
  The first steps of \<^verbatim>\<open>urlsplit\<close>: leading C0 control characters and spaces are
  stripped, then every tab, carriage return and line feed is removed.
\<close>

definition url_clean :: "string \<Rightarrow> string" where
  "url_clean u =
     filter (\<lambda>c. c \<noteq> CHR 0x09 \<and> c \<noteq> CHR 0x0D \<and> c \<noteq> CHR 0x0A)
       (dropWhile (\<lambda>c. of_char c \<le> (32 :: nat)) u)"

text \<open>
  \<^verbatim>\<open>i = url.find(':')\<close>; when \<open>i > 0\<close>, the first character is an ASCII letter and all
  of \<^verbatim>\<open>url[:i]\<close> are scheme characters, the scheme is \<^verbatim>\<open>url[:i].lower()\<close> and the
  rest is \<^verbatim>\<open>url[i+1:]\<close>.
\<close>

definition split_scheme :: "string \<Rightarrow> string \<times> string" where
  "split_scheme u =
     (let pre = takeWhile (\<lambda>c. c \<noteq> CHR '':'') u
      in if CHR '':'' \<in> set u \<and> pre \<noteq> [] \<and> is_ascii_alpha (hd u)
            \<and> list_all (\<lambda>c. c \<in> set scheme_chars) pre
         then (lower pre, drop (length pre + 1) u)
         else ([], u))"

text \<open>\<^verbatim>\<open>_splitnetloc(url, 2)\<close>: the network location ends at the first of \<^verbatim>\<open>/?#\<close>.\<close>

definition splitnetloc :: "string \<Rightarrow> string \<times> string" where
  "splitnetloc u =
     (takeWhile (\<lambda>c. c \<notin> set ''/?#'') (drop 2 u), dropWhile (\<lambda>c. c \<notin> set ''/?#'') (drop 2 u))"

text \<open>
  \<^verbatim>\<open>_check_bracketed_netloc\<close> of 3.12.3, with \<open>False\<close> for the \<^verbatim>\<open>ValueError\<close>:
  \<^verbatim>\<open>netloc.rpartition('@')[2]\<close> is split at its first \<open>[\<close>; nothing may stand before the
  bracket, and after the closing bracket only a port.
\<close>

definition check_bracketed_netloc :: "env \<Rightarrow> string \<Rightarrow> bool" where
  "check_bracketed_netloc env netloc =
     (let hostname_and_port = rev (takeWhile (\<lambda>c. c \<noteq> CHR ''@'') (rev netloc));
          before_bracket = takeWhile (\<lambda>c. c \<noteq> CHR ''['') hostname_and_port;
          bracketed = drop 1 (dropWhile (\<lambda>c. c \<noteq> CHR ''['') hostname_and_port)
      in if CHR ''['' \<in> set hostname_and_port
         then if before_bracket \<noteq> [] then False
              else
                let hostname = takeWhile (\<lambda>c. c \<noteq> CHR '']'') bracketed;
                    port = drop 1 (dropWhile (\<lambda>c. c \<noteq> CHR '']'') bracketed)
                in if port \<noteq> [] \<and> \<not> startswith port '':'' then False
                   else bracketed_host_ok env hostname
         else bracketed_host_ok env (takeWhile (\<lambda>c. c \<noteq> CHR '':'') hostname_and_port))"

text \<open>
  The checks of \<^verbatim>\<open>urlsplit\<close> on the network location; \<open>False\<close> stands for the
  \<^verbatim>\<open>ValueError\<close>. With both brackets present, 3.11.10 checks the host between the first
  \<open>[\<close> and the next \<open>]\<close>, and 3.12.3 calls \<^verbatim>\<open>_check_bracketed_netloc\<close>.
  (\<^verbatim>\<open>_checknetloc\<close> raises on no string of code points below 256.)
\<close>

definition netloc_ok :: "env \<Rightarrow> string \<Rightarrow> bool" where
  "netloc_ok env netloc =
     (if (CHR ''['' \<in> set netloc \<and> CHR '']'' \<notin> set netloc)
         \<or> (CHR '']'' \<in> set netloc \<and> CHR ''['' \<notin> set netloc) then False
      else if CHR ''['' \<in> set netloc \<and> CHR '']'' \<in> set netloc
      then (case library env of
              CPython_3_11_10 \<Rightarrow>
                bracketed_host_ok env
                  (takeWhile (\<lambda>c. c \<noteq> CHR '']'') (drop 1 (dropWhile (\<lambda>c. c \<noteq> CHR ''['') netloc)))
            | CPython_3_12_3 \<Rightarrow> check_bracketed_netloc env netloc)
      else True)"

text \<open>\<^verbatim>\<open>s.split(c, 1)\<close> as a pair, for a string that holds \<open>c\<close>.\<close>

definition split1 :: "char \<Rightarrow> string \<Rightarrow> string \<times> string" where
  "split1 c s = (takeWhile (\<lambda>x. x \<noteq> c) s, drop 1 (dropWhile (\<lambda>x. x \<noteq> c) s))"

text \<open>The result is (scheme, netloc, path, query, fragment).\<close>

definition urlsplit :: "env \<Rightarrow> string \<Rightarrow> error + (string \<times> string \<times> string \<times> string \<times> string)" where
  "urlsplit env u0 =
     (let u1 = url_clean u0;
          (scheme, u2) = split_scheme u1;
          (netloc, u3) = (if take 2 u2 = ''//'' then splitnetloc u2 else ([], u2))
      in if take 2 u2 = ''//'' \<and> \<not> netloc_ok env netloc then Inl ValueError
         else
           let (u4, fragment) = (if CHR ''#'' \<in> set u3 then split1 (CHR ''#'') u3 else (u3, []));
               (u5, query) = (if CHR ''?'' \<in> set u4 then split1 (CHR ''?'') u4 else (u4, []))
           in Inr (scheme, netloc, u5, query, fragment))"

text \<open>
  \<^verbatim>\<open>_splitparams\<close>: the parameters start at the first semicolon that follows the last
  slash. \<^verbatim>\<open>urlparse\<close> calls it on a string that holds a semicolon; without one (and
  without a slash) \<^verbatim>\<open>find\<close> gives -1 and the slices are \<^verbatim>\<open>url[:-1]\<close> and \<^verbatim>\<open>url\<close>.
\<close>

definition splitparams :: "string \<Rightarrow> string \<times> string" where
  "splitparams u =
     (if CHR ''/'' \<in> set u
      then
        let seg = rev (takeWhile (\<lambda>c. c \<noteq> CHR ''/'') (rev u));
            dir = take (length u - length seg) u
        in if CHR '';'' \<in> set seg
           then (dir @ takeWhile (\<lambda>c. c \<noteq> CHR '';'') seg, drop 1 (dropWhile (\<lambda>c. c \<noteq> CHR '';'') seg))
           else (u, [])
      else if CHR '';'' \<in> set u then split1 (CHR '';'') u
      else (butlast u, u))"

record parse_result =
  u_scheme :: string
  u_netloc :: string
  u_path :: string
  u_params :: string
  u_query :: string
  u_fragment :: string

definition urlparse :: "env \<Rightarrow> string \<Rightarrow> error + parse_result" where
  "urlparse env u =
     (case urlsplit env u of
        Inl e \<Rightarrow> Inl e
      | Inr (scheme, netloc, url, query, fragment) \<Rightarrow>
          let (url', params) =
                (if scheme \<in> set uses_params \<and> CHR '';'' \<in> set url then splitparams url
                 else (url, []))
          in Inr \<lparr>u_scheme = scheme, u_netloc = netloc, u_path = url', u_params = params,
                  u_query = query, u_fragment = fragment\<rparr>)"

text \<open>
  The condition of \<^verbatim>\<open>urlunsplit\<close> for writing \<open>//\<close> before the network location and the
  path. In 3.11.10 it is
  \<^verbatim>\<open>netloc or (scheme and scheme in uses_netloc) or url[:2] == '//'\<close>, in 3.12.3
  \<^verbatim>\<open>netloc or (scheme and scheme in uses_netloc and url[:2] != '//')\<close>.
\<close>

definition writes_slashes :: "cpython \<Rightarrow> string \<Rightarrow> string \<Rightarrow> string \<Rightarrow> bool" where
  "writes_slashes lib scheme netloc url0 =
     (case lib of
        CPython_3_11_10 \<Rightarrow>
          netloc \<noteq> [] \<or> (scheme \<noteq> [] \<and> scheme \<in> set (uses_netloc lib)) \<or> take 2 url0 = ''//''
      | CPython_3_12_3 \<Rightarrow>
          netloc \<noteq> [] \<or> (scheme \<noteq> [] \<and> scheme \<in> set (uses_netloc lib) \<and> take 2 url0 \<noteq> ''//''))"

definition urlunsplit :: "cpython \<Rightarrow> string \<Rightarrow> string \<Rightarrow> string \<Rightarrow> string \<Rightarrow> string \<Rightarrow> string" where
  "urlunsplit lib scheme netloc url0 query fragment =
     (let url1 =
            (if writes_slashes lib scheme netloc url0
             then ''//'' @ netloc @ (if url0 \<noteq> [] \<and> take 1 url0 \<noteq> ''/'' then ''/'' @ url0 else url0)
             else url0);
          url2 = (if scheme \<noteq> [] then scheme @ '':'' @ url1 else url1);
          url3 = (if query \<noteq> [] then url2 @ ''?'' @ query else url2)
      in if fragment \<noteq> [] then url3 @ ''#'' @ fragment else url3)"

text \<open>\<^verbatim>\<open>ParseResult.geturl\<close>, which is \<^verbatim>\<open>urlunparse\<close>.\<close>

definition geturl :: "cpython \<Rightarrow> parse_result \<Rightarrow> string" where
  "geturl lib r =
     urlunsplit lib (u_scheme r) (u_netloc r)
       (if u_params r \<noteq> [] then u_path r @ '';'' @ u_params r else u_path r)
       (u_query r) (u_fragment r)"

subsection \<open>The URL normalizer and the scope filter\<close>

definition normalize_url :: "env \<Rightarrow> string \<Rightarrow> error + string" where
  "normalize_url env url =
     (case urlparse env url of
        Inl e \<Rightarrow> Inl e
      | Inr parsed \<Rightarrow> Inr (geturl (library env) (parsed\<lparr>u_query := [], u_fragment := []\<rparr>)))"

definition page_to_slug :: "env \<Rightarrow> string \<Rightarrow> error + string" where
  "page_to_slug env url =
     (case urlparse env url of
        Inl e \<Rightarrow> Inl e
      | Inr parsed \<Rightarrow> Inr (last_piece (u_path parsed) ''/krpc/''))"

definition normalize_slug_or_url :: "env \<Rightarrow> string \<Rightarrow> error + string" where
  "normalize_slug_or_url env v0 =
     (let v = strip v0
      in if startswith v ''http://'' \<or> startswith v ''https://''
         then (case normalize_url env v of
                 Inl e \<Rightarrow> Inl e
               | Inr url \<Rightarrow> page_to_slug env url)
         else Inr (lstrip_chars v ''/''))"

definition allowed :: "env \<Rightarrow> string \<Rightarrow> error + bool" where
  "allowed env url =
     (case normalize_url env url of
        Inl e \<Rightarrow> Inl e
      | Inr n \<Rightarrow> Inr (if \<not> startswith n ALLOWED_PREFIX then False else endswith n ''.html''))"

subsection \<open>The crawler\<close>

text \<open>
  \<^verbatim>\<open>extract_text\<close> on the text of the main region: \<^verbatim>\<open>splitlines\<close> breaks a string at the
  code points 10-13, 28-30 and 133; the lines are stripped, the empty ones dropped, the rest
  joined by line feeds and cut at \<open>MAX_PAGE_CHARS\<close>. An empty line stays empty when it is
  stripped, so the lines are read here as the maximal runs without a line break.
\<close>

definition is_linebreak :: "char \<Rightarrow> bool" where
  "is_linebreak c = (of_char c \<in> {10, 11, 12, 13, 28, 29, 30, 133 :: nat})"

fun lines_acc :: "string \<Rightarrow> string \<Rightarrow> string list" where
  "lines_acc cur [] = (if cur = [] then [] else [cur])"
| "lines_acc cur (c # cs) =
     (if is_linebreak c then (if cur = [] then lines_acc [] cs else cur # lines_acc [] cs)
      else lines_acc (cur @ [c]) cs)"

definition extract_text :: "soup \<Rightarrow> string" where
  "extract_text sp =
     take MAX_PAGE_CHARS
       (join [CHR 0x0A] (filter (\<lambda>l. l \<noteq> []) (map strip (lines_acc [] (main_text sp)))))"

text \<open>The member record that the loop over \<^verbatim>\<open>dt[id]\<close> stores under \<open>mid\<close>.\<close>

definition member_record :: "string \<Rightarrow> string \<Rightarrow> string \<Rightarrow> dt_elem \<Rightarrow> (string \<times> string) list" where
  "member_record title url mid dt =
     [(''id'', mid),
      (''title'', title),
      (''url'', url @ ''#'' @ mid),
      (''signature'', collapse_ws (dt_text dt)),
      (''description'', (case dd_text dt of None \<Rightarrow> [] | Some d \<Rightarrow> take 1200 (collapse_ws d)))]"

text \<open>The loop \<^verbatim>\<open>for dt in soup.select("dt[id]")\<close>.\<close>

fun add_members :: "string \<Rightarrow> string \<Rightarrow> dt_elem list \<Rightarrow> member_dict \<Rightarrow> member_dict" where
  "add_members title url [] mbs = mbs"
| "add_members title url (dt # rest) mbs =
     (let mid = strip (dt_id dt)
      in if mid = [] then add_members title url rest mbs
         else add_members title url rest (dict_set mbs mid (member_record title url mid dt)))"

text \<open>
  The loop \<^verbatim>\<open>for a in soup.select("a[href]")\<close>: the last argument is \<^verbatim>\<open>to_visit\<close>, the
  result the list after the loop, or the \<^verbatim>\<open>ValueError\<close> of \<^verbatim>\<open>urljoin\<close> or of
  \<^verbatim>\<open>urlparse\<close>, which nothing in \<^verbatim>\<open>crawl_docs\<close> catches.
\<close>

fun add_links :: "env \<Rightarrow> string \<Rightarrow> string fset \<Rightarrow> string list \<Rightarrow> string list \<Rightarrow> error + string list" where
  "add_links env url sn [] tv = Inr tv"
| "add_links env url sn (raw # raws) tv =
     (if raw = [] then add_links env url sn raws tv
      else case urljoin env url raw of
        Inl e \<Rightarrow> Inl e
      | Inr joined \<Rightarrow>
         (case normalize_url env joined of
            Inl e \<Rightarrow> Inl e
          | Inr linked \<Rightarrow>
             (case allowed env linked of
                Inl e \<Rightarrow> Inl e
              | Inr ok \<Rightarrow>
                  if ok \<and> linked |\<notin>| sn \<and> linked \<notin> set tv
                  then add_links env url sn raws (tv @ [linked])
                  else add_links env url sn raws tv)))"

text \<open>
  The local variables of \<^verbatim>\<open>crawl_docs\<close>, and \<open>fetched\<close>: the URLs that \<^verbatim>\<open>session.get\<close>
  was called with, in the order of the calls.
\<close>

record crawl_state =
  to_visit :: "string list"
  seen :: "string fset"
  found_pages :: "DocPage list"
  found_members :: member_dict
  fetched :: "string list"

text \<open>
  The body of the loop for a URL that is not in \<^verbatim>\<open>seen\<close>, after \<^verbatim>\<open>to_visit.pop(0)\<close>.
  The first component of the result is the exception that ends the crawl, if one is raised.
\<close>

definition visit :: "env \<Rightarrow> crawl_state \<Rightarrow> string \<Rightarrow> error option \<times> crawl_state" where
  "visit env s url =
     (let s1 = s\<lparr>seen := finsert url (seen s), fetched := fetched s @ [url]\<rparr>
      in case http_get env url of
           None \<Rightarrow> (None, s1)
         | Some sp \<Rightarrow>
            (case page_to_slug env url of
               Inl e \<Rightarrow> (Some e, s1)
             | Inr slug \<Rightarrow>
                 let title = (case title_text sp of
                                None \<Rightarrow> slug
                              | Some t \<Rightarrow> if t \<noteq> [] then strip t else slug);
                     text = extract_text sp;
                     s2 = s1\<lparr>found_pages := found_pages s1 @
                                 [\<lparr>page_url = url, page_slug = slug, page_title = title,
                                    page_text = text\<rparr>],
                             found_members := add_members title url (dts sp) (found_members s1)\<rparr>
                 in (case add_links env url (seen s2) (hrefs sp) (to_visit s2) of
                       Inl e \<Rightarrow> (Some e, s2)
                     | Inr tv \<Rightarrow> (None, s2\<lparr>to_visit := tv\<rparr>))))"

text \<open>The loop \<^verbatim>\<open>while to_visit and len(seen) < MAX_PAGES\<close>.\<close>

function crawl_loop :: "env \<Rightarrow> crawl_state \<Rightarrow> error option \<times> crawl_state" where
  "crawl_loop env s =
     (if to_visit s \<noteq> [] \<and> fcard (seen s) < MAX_PAGES
      then
        (case normalize_url env (hd (to_visit s)) of
           Inl e \<Rightarrow> (Some e, s\<lparr>to_visit := tl (to_visit s)\<rparr>)
         | Inr url \<Rightarrow>
             if url |\<in>| seen s then crawl_loop env (s\<lparr>to_visit := tl (to_visit s)\<rparr>)
             else
               (case visit env (s\<lparr>to_visit := tl (to_visit s)\<rparr>) url of
                  (Some e, s') \<Rightarrow> (Some e, s')
                | (None, s') \<Rightarrow> crawl_loop env s'))
      else (None, s))"
  by pat_completeness auto

lemma visit_seen: "visit env s url = (r, s') \<Longrightarrow> seen s' = finsert url (seen s)"
  by (auto simp: visit_def Let_def split: option.splits sum.splits)

termination crawl_loop
  by (relation "measures [\<lambda>(env, s). MAX_PAGES - fcard (seen s), \<lambda>(env, s). length (to_visit s)]")
     (auto dest!: visit_seen [OF sym] simp: fcard_finsert_disjoint)

declare crawl_loop.simps [simp del]

definition crawl_start :: crawl_state where
  "crawl_start =
     \<lparr>to_visit = [ROOT_URL], seen = {||}, found_pages = [], found_members = [], fetched = []\<rparr>"

text \<open>
  \<^verbatim>\<open>crawl_docs\<close>: the calls of \<^verbatim>\<open>session.get\<close> it made, and the exception it raised or
  the pages and members it returned.
\<close>

definition crawl_docs :: "env \<Rightarrow> string list \<times> (error + DocPage list \<times> member_dict)" where
  "crawl_docs env =
     (case crawl_loop env crawl_start of
        (Some e, s) \<Rightarrow> (fetched s, Inl e)
      | (None, s) \<Rightarrow> (fetched s, Inr (found_pages s, found_members s)))"

subsection \<open>The store: staleness and reindexing\<close>

text \<open>
  An operation of \<^verbatim>\<open>DocIndex\<close> gives the calls of \<^verbatim>\<open>session.get\<close> it made and either
  the exception it raised or its result with the state it leaves.
\<close>

type_synonym 'a outcome = "string list \<times> (error + 'a \<times> index_state)"

text \<open>The status dictionaries; \<open>None\<close> as the time stands for \<^verbatim>\<open>"unknown"\<close>.\<close>

datatype status_message = Index_is_fresh | Index_already_fresh | Indexed nat nat

record status_reply =
  reply_status :: string
  reply_message :: status_message
  reply_indexed_at :: "int option"

text \<open>\<^verbatim>\<open>timedelta(hours=24)\<close> in microseconds.\<close>

definition FRESH_WINDOW :: int where
  "FRESH_WINDOW = 24 * 3600 * 1000000"

definition is_stale :: "env \<Rightarrow> index_state \<Rightarrow> bool" where
  "is_stale env st =
     (case indexed_at st of
        None \<Rightarrow> True
      | Some t \<Rightarrow> now_check env - t > FRESH_WINDOW)"

text \<open>The comprehension \<^verbatim>\<open>{p.slug: p for p in pages}\<close>.\<close>

definition pages_by_slug :: "DocPage list \<Rightarrow> (string \<times> DocPage) list" where
  "pages_by_slug pgs = foldl (\<lambda>d p. dict_set d (page_slug p) p) [] pgs"

definition reindex :: "env \<Rightarrow> index_state \<Rightarrow> bool \<Rightarrow> status_reply outcome" where
  "reindex env st force =
     (if pages st \<noteq> [] \<and> \<not> force \<and> \<not> is_stale env st
      then ([], Inr (\<lparr>reply_status = ''ok'', reply_message = Index_already_fresh,
                       reply_indexed_at = indexed_at st\<rparr>, st))
      else
        (case crawl_docs env of
           (gets, Inl e) \<Rightarrow> (gets, Inl e)
         | (gets, Inr (pgs, mbs)) \<Rightarrow>
             let st' = \<lparr>pages = pages_by_slug pgs, members = mbs,
                        indexed_at = Some (now_stamp env),
                        disk = Some (dict_values (pages_by_slug pgs), mbs, now_stamp env)\<rparr>
             in (gets, Inr (\<lparr>reply_status = ''ok'',
                              reply_message = Indexed (length (pages st')) (length (members st')),
                              reply_indexed_at = indexed_at st'\<rparr>, st'))))"

definition ensure_fresh :: "env \<Rightarrow> index_state \<Rightarrow> status_reply outcome" where
  "ensure_fresh env st =
     (if pages st \<noteq> [] \<and> \<not> is_stale env st
      then ([], Inr (\<lparr>reply_status = ''ok'', reply_message = Index_is_fresh,
                       reply_indexed_at = indexed_at st\<rparr>, st))
      else reindex env st True)"

subsection \<open>The search ranker\<close>

definition page_score :: "string \<Rightarrow> DocPage \<Rightarrow> int" where
  "page_score q page =
     (let score = 0;
          title_l = lower (page_title page);
          text_l = lower (page_text page);
          slug_l = lower (page_slug page);
          score = (if contains title_l q then score + 5 else score);
          score = (if contains slug_l q then score + 4 else score);
          score = (if contains text_l q then score + 1 else score)
      in score)"

text \<open>The list \<^verbatim>\<open>scored\<close> before it is sorted.\<close>

definition scored_pages :: "string \<Rightarrow> DocPage list \<Rightarrow> (int \<times> DocPage) list" where
  "scored_pages q pgs =
     filter (\<lambda>(score, page). score > 0) (map (\<lambda>page. (page_score q page, page)) pgs)"

definition snippet_of :: "string \<Rightarrow> DocPage \<Rightarrow> string" where
  "snippet_of q page =
     (let idx = find_str (lower (page_text page)) q;
          snippet =
            (if idx < 0 then slice (page_text page) 0 240
             else
               let start = max 0 (idx - 80);
                   stop = min (int (length (page_text page))) (idx + 160)
               in slice (page_text page) (nat start) (nat stop))
      in collapse_ws snippet)"

record search_hit =
  hit_score :: int
  hit_title :: string
  hit_slug :: string
  hit_url :: string
  hit_snippet :: string

record search_reply =
  reply_query :: string
  results :: "search_hit list"

text \<open>
  \<^verbatim>\<open>search\<close> after its call of \<^verbatim>\<open>ensure_fresh\<close>. \<^verbatim>\<open>list.sort\<close> is stable, as
  \<open>sort_key\<close> is; the keys are compared as Python compares tuples of an integer and a string.
\<close>

definition search_index :: "index_state \<Rightarrow> string \<Rightarrow> int \<Rightarrow> search_reply" where
  "search_index st query limit =
     (let q = lower (strip query)
      in if q = [] then \<lparr>reply_query = query, results = []\<rparr>
         else
           let scored = sort_key (\<lambda>(score, page). (- score, page_slug page))
                          (scored_pages q (dict_values (pages st)));
               out = map (\<lambda>(score, page).
                            \<lparr>hit_score = score, hit_title = page_title page,
                              hit_slug = page_slug page, hit_url = page_url page,
                              hit_snippet = snippet_of q page\<rparr>)
                         (take (nat (max 1 (min limit 20))) scored)
           in \<lparr>reply_query = query, results = out\<rparr>)"

definition search :: "env \<Rightarrow> index_state \<Rightarrow> string \<Rightarrow> int \<Rightarrow> search_reply outcome" where
  "search env st query limit =
     (case ensure_fresh env st of
        (gets, Inl e) \<Rightarrow> (gets, Inl e)
      | (gets, Inr (status, st')) \<Rightarrow> (gets, Inr (search_index st' query limit, st')))"

subsection \<open>Page text beyond Latin-1\<close>

text \<open>
  The text of a crawled page can hold any code point, and \<^verbatim>\<open>str.lower\<close> does not keep the
  length of every string: it turns U+0130 (capital I with dot above) into the two code points
  U+0069 and U+0307. \<^verbatim>\<open>search\<close> takes an index of the text in lower case and cuts the text
  itself at that index. That computation is therefore modelled a second time, over an
  alphabet that adds U+0130 and U+0307 to the 256 code points of \<open>char\<close>. On this alphabet
  \<^verbatim>\<open>str.isspace\<close> and \<^verbatim>\<open>str.lower\<close> are as follows: neither of the two new code points is
  whitespace, and U+0307 is its own lower case.
\<close>

datatype code_point = Latin char | Capital_I_dot | Dot_above

fun wide_is_space :: "code_point \<Rightarrow> bool" where
  "wide_is_space (Latin c) = is_space c"
| "wide_is_space Capital_I_dot = False"
| "wide_is_space Dot_above = False"

fun wide_lower_cp :: "code_point \<Rightarrow> code_point list" where
  "wide_lower_cp (Latin c) = [Latin (lower_char c)]"
| "wide_lower_cp Capital_I_dot = [Latin CHR ''i'', Dot_above]"
| "wide_lower_cp Dot_above = [Dot_above]"

definition wide_lower :: "code_point list \<Rightarrow> code_point list" where
  "wide_lower s = concat (map wide_lower_cp s)"

fun wide_words_acc :: "code_point list \<Rightarrow> code_point list \<Rightarrow> code_point list list" where
  "wide_words_acc cur [] = (if cur = [] then [] else [cur])"
| "wide_words_acc cur (c # cs) =
     (if wide_is_space c then (if cur = [] then wide_words_acc [] cs else cur # wide_words_acc [] cs)
      else wide_words_acc (cur @ [c]) cs)"

definition wide_split_ws :: "code_point list \<Rightarrow> code_point list list" where
  "wide_split_ws s = wide_words_acc [] s"

definition wide_collapse_ws :: "code_point list \<Rightarrow> code_point list" where
  "wide_collapse_ws s = join [Latin CHR '' ''] (wide_split_ws s)"

text \<open>
  The snippet of one result: the body of the loop over \<^verbatim>\<open>scored[: max(1, min(limit, 20))]\<close>,
  for the query \<open>q\<close> (stripped, in lower case) and the text of the page.
\<close>

definition wide_snippet :: "code_point list \<Rightarrow> code_point list \<Rightarrow> code_point list" where
  "wide_snippet q text0 =
     (let idx = find_str (wide_lower text0) q;
          snippet =
            (if idx < 0 then slice text0 0 240
             else
               let start = max 0 (idx - 80);
                   stop = min (int (length text0)) (idx + 160)
               in slice text0 (nat start) (nat stop))
      in wide_collapse_ws snippet)"

subsection \<open>The page lookup\<close>

text \<open>
  The two dictionaries \<^verbatim>\<open>get_page\<close> returns: \<open>Page_not_found\<close> holds the values of the keys
  \<^verbatim>\<open>"error"\<close> and \<^verbatim>\<open>"message"\<close>, \<open>Page_found\<close> those of \<^verbatim>\<open>"title"\<close>, \<^verbatim>\<open>"slug"\<close>,
  \<^verbatim>\<open>"url"\<close>, \<^verbatim>\<open>"content"\<close> and \<^verbatim>\<open>"indexed_at"\<close>.
\<close>

datatype page_reply =
  Page_not_found string string
| Page_found string string string string "int option"

definition get_page_index :: "index_state \<Rightarrow> string \<Rightarrow> string \<Rightarrow> page_reply" where
  "get_page_index st slug_or_url key =
     (case dict_get (pages st) key of
        None \<Rightarrow>
          Page_not_found ''not_found''
            (''No page found for '' @ [CHR 0x27] @ slug_or_url @ [CHR 0x27] @ ''.'')
      | Some page \<Rightarrow>
          Page_found (page_title page) (page_slug page) (page_url page) (page_text page)
            (indexed_at st))"

definition get_page :: "env \<Rightarrow> index_state \<Rightarrow> string \<Rightarrow> page_reply outcome" where
  "get_page env st slug_or_url =
     (case ensure_fresh env st of
        (gets, Inl e) \<Rightarrow> (gets, Inl e)
      | (gets, Inr (status, st')) \<Rightarrow>
          (case normalize_slug_or_url env slug_or_url of
             Inl e \<Rightarrow> (gets, Inl e)
           | Inr key \<Rightarrow> (gets, Inr (get_page_index st' slug_or_url key, st'))))"

subsection \<open>The member resolver\<close>

definition member_score :: "string \<Rightarrow> string \<Rightarrow> string \<Rightarrow> string \<Rightarrow> int" where
  "member_score service class_name member mid =
     (let target = lower (service @ ''.'' @ class_name @ ''.'' @ member);
          key = lower mid
      in if target = key then 100
         else if contains key target then 80
         else if contains key (lower member) \<and> contains key (lower class_name) then 50
         else if contains key (lower member) then 20
         else 0)"

text \<open>The list \<^verbatim>\<open>candidates\<close> before it is sorted.\<close>

definition candidates_of ::
  "string \<Rightarrow> string \<Rightarrow> string \<Rightarrow> member_dict \<Rightarrow> (int \<times> string \<times> (string \<times> string) list) list" where
  "candidates_of service class_name member mbs =
     filter (\<lambda>(score, mid, entry). score \<noteq> 0)
       (map (\<lambda>(mid, entry). (member_score service class_name member mid, mid, entry)) mbs)"

record best_match =
  best_id :: string
  best_title :: string
  best_url :: string
  best_signature :: string
  best_description :: string

record alternative =
  alt_id :: string
  alt_title :: string
  alt_url :: string

text \<open>
  The two dictionaries \<^verbatim>\<open>get_member\<close> returns: \<open>Member_not_found\<close> holds the values of the
  keys \<^verbatim>\<open>"error"\<close> and \<^verbatim>\<open>"message"\<close>, \<open>Member_found\<close> those of \<^verbatim>\<open>"query"\<close> (service,
  class name and member), \<^verbatim>\<open>"best_match"\<close> and \<^verbatim>\<open>"alternatives"\<close>.
\<close>

datatype member_reply =
  Member_not_found string string
| Member_found "string \<times> string \<times> string" best_match "alternative list"

definition get_member_index :: "index_state \<Rightarrow> string \<Rightarrow> string \<Rightarrow> string \<Rightarrow> member_reply" where
  "get_member_index st service class_name member =
     (let candidates = sort_key (\<lambda>(score, mid, entry). - score)
                         (candidates_of service class_name member (members st))
      in case candidates of
           [] \<Rightarrow>
             Member_not_found ''not_found''
               (''No API member matched '' @ service @ ''.'' @ class_name @ ''.'' @ member)
         | best # rest \<Rightarrow>
             Member_found (service, class_name, member)
               \<lparr>best_id = fst (snd best),
                 best_title = get_or_empty (snd (snd best)) ''title'',
                 best_url = get_or_empty (snd (snd best)) ''url'',
                 best_signature = get_or_empty (snd (snd best)) ''signature'',
                 best_description = get_or_empty (snd (snd best)) ''description''\<rparr>
               (map (\<lambda>(score, mid, entry).
                       \<lparr>alt_id = mid, alt_title = get_or_empty entry ''title'',
                         alt_url = get_or_empty entry ''url''\<rparr>)
                    (take 5 rest)))"

definition get_member ::
  "env \<Rightarrow> index_state \<Rightarrow> string \<Rightarrow> string \<Rightarrow> string \<Rightarrow> member_reply outcome" where
  "get_member env st service class_name member =
     (case ensure_fresh env st of
        (gets, Inl e) \<Rightarrow> (gets, Inl e)
      | (gets, Inr (status, st')) \<Rightarrow>
          (gets, Inr (get_member_index st' service class_name member, st')))"

subsection \<open>Predicates of the statements\<close>

text \<open>
  The invariant of \<^verbatim>\<open>self.pages\<close>: a dictionary (no key twice) in which every page is
  stored under its slug. Both places that build it, \<^verbatim>\<open>_load_from_disk\<close> and
  \<^verbatim>\<open>reindex\<close>, do so by a comprehension over \<^verbatim>\<open>p.slug\<close>.
\<close>

definition pages_keyed :: "(string \<times> DocPage) list \<Rightarrow> bool" where
  "pages_keyed d = (distinct (map fst d) \<and> list_all (\<lambda>(k, p). k = page_slug p) d)"


text \<open>
  The writes \<^verbatim>\<open>members[mid] = {...}\<close> of the crawl, in the order in which it makes them: per
  page, in the order of the pages, one for every \<^verbatim>\<open>dt[id]\<close> element whose stripped id is
  not empty, in document order.
\<close>

definition page_writes :: "string \<Rightarrow> string \<Rightarrow> dt_elem list \<Rightarrow> member_dict" where
  "page_writes title url ds =
     map (\<lambda>dt. (strip (dt_id dt), member_record title url (strip (dt_id dt)) dt))
       (filter (\<lambda>dt. strip (dt_id dt) \<noteq> []) ds)"

definition member_writes :: "env \<Rightarrow> DocPage list \<Rightarrow> member_dict" where
  "member_writes env pgs =
     concat (map (\<lambda>p. case http_get env (page_url p) of
                         None \<Rightarrow> []
                       | Some sp \<Rightarrow> page_writes (page_title p) (page_url p) (dts sp)) pgs)"

text \<open>A list of writes applied to a dictionary, one after the other.\<close>

definition write_all :: "('k \<times> 'v) list \<Rightarrow> ('k \<times> 'v) list \<Rightarrow> ('k \<times> 'v) list" where
  "write_all d ws = foldl (\<lambda>d (k, v). dict_set d k v) d ws"


definition members_inv :: "env \<Rightarrow> crawl_state \<Rightarrow> bool" where
  "members_inv env s \<longleftrightarrow>
     found_members s = write_all [] (member_writes env (found_pages s))"





definition good_start :: "string \<Rightarrow> bool" where
  "good_start s = (s = [] \<or> \<not> of_char (hd s) \<le> (32 :: nat))"



subsection \<open>A small index and a small site\<close>

text \<open>Concrete values on which the theorems below are instantiated.\<close>

definition demo_pages :: "DocPage list" where
  "demo_pages =
     [\<lparr>page_url = ''https://krpc.github.io/krpc/python/api/vessel.html'',
       page_slug = ''python/api/vessel.html'', page_title = ''Vessel'',
       page_text = ''class  Vessel''\<rparr>,
      \<lparr>page_url = ''https://krpc.github.io/krpc/python/client.html'',
       page_slug = ''python/client.html'', page_title = ''Client'',
       page_text = ''A vessel example''\<rparr>,
      \<lparr>page_url = ''https://krpc.github.io/krpc/python/api.html'',
       page_slug = ''python/api.html'', page_title = ''SpaceCenter'',
       page_text = ''The active Vessel''\<rparr>,
      \<lparr>page_url = ''https://krpc.github.io/krpc/python/ui.html'',
       page_slug = ''python/ui.html'', page_title = ''UI'',
       page_text = ''Drawing''\<rparr>]"

definition demo_members :: member_dict where
  "demo_members =
     [(''SpaceCenter.Part.name'',
       [(''id'', ''SpaceCenter.Part.name''), (''title'', ''Part''), (''url'', ''u1''),
        (''signature'', ''name''), (''description'', ''d1'')]),
      (''SpaceCenter.Vessel'',
       [(''id'', ''SpaceCenter.Vessel''), (''title'', ''Vessel''), (''url'', ''u2''),
        (''signature'', ''class Vessel''), (''description'', ''d2'')]),
      (''SpaceCenter.Vessel.rename'',
       [(''id'', ''SpaceCenter.Vessel.rename''), (''title'', ''Vessel''), (''url'', ''u3''),
        (''signature'', ''rename()''), (''description'', ''d3'')]),
      (''krpc.SpaceCenter.Vessel.name'',
       [(''id'', ''krpc.SpaceCenter.Vessel.name''), (''title'', ''Old''), (''url'', ''u4''),
        (''signature'', ''name''), (''description'', ''d4'')]),
      (''SpaceCenter.Vessel.name'',
       [(''id'', ''SpaceCenter.Vessel.name''), (''title'', ''Vessel''), (''url'', ''u5''),
        (''signature'', ''name''), (''description'', ''d5'')])]"

definition demo_state :: index_state where
  "demo_state =
     \<lparr>pages = pages_by_slug demo_pages, members = demo_members, indexed_at = Some 0,
       disk = None\<rparr>"

text \<open>An environment whose clock reads one second after the index was built.\<close>

definition demo_env :: env where
  "demo_env =
     \<lparr>library = CPython_3_11_10, bracketed_host_ok = (\<lambda>h. False), urljoin = (\<lambda>b r. Inr r),
       http_get = (\<lambda>u. None), now_check = 1000000, now_stamp = 2000000\<rparr>"


text \<open>The reply to the query \<open>vessel\<close> on the small index.\<close>

definition vessel_reply :: search_reply where
  "vessel_reply =
     \<lparr>reply_query = ''vessel'',
       results =
         [\<lparr>hit_score = 10, hit_title = ''Vessel'', hit_slug = ''python/api/vessel.html'',
            hit_url = ''https://krpc.github.io/krpc/python/api/vessel.html'',
            hit_snippet = ''class Vessel''\<rparr>,
          \<lparr>hit_score = 1, hit_title = ''SpaceCenter'', hit_slug = ''python/api.html'',
            hit_url = ''https://krpc.github.io/krpc/python/api.html'',
            hit_snippet = ''The active Vessel''\<rparr>,
          \<lparr>hit_score = 1, hit_title = ''Client'', hit_slug = ''python/client.html'',
            hit_url = ''https://krpc.github.io/krpc/python/client.html'',
            hit_snippet = ''A vessel example''\<rparr>]\<rparr>"


text \<open>The reply to the member query (SpaceCenter, Vessel, name) on the small index.\<close>

definition name_reply :: member_reply where
  "name_reply =
     Member_found (''SpaceCenter'', ''Vessel'', ''name'')
       \<lparr>best_id = ''SpaceCenter.Vessel.name'', best_title = ''Vessel'', best_url = ''u5'',
         best_signature = ''name'', best_description = ''d5''\<rparr>
       [\<lparr>alt_id = ''krpc.SpaceCenter.Vessel.name'', alt_title = ''Old'', alt_url = ''u4''\<rparr>,
        \<lparr>alt_id = ''SpaceCenter.Vessel.rename'', alt_title = ''Vessel'', alt_url = ''u3''\<rparr>,
        \<lparr>alt_id = ''SpaceCenter.Part.name'', alt_title = ''Part'', alt_url = ''u1''\<rparr>]"

text \<open>
  An index of nine members, and the reply to the member query (s, c, m) on it.
\<close>

definition crowded_state :: index_state where
  "crowded_state =
     demo_state\<lparr>members :=
       [(''m'', [(''id'', ''m''), (''title'', ''T1''), (''url'', ''u1'')]),
        (''c.m'', [(''id'', ''c.m''), (''title'', ''T2''), (''url'', ''u2'')]),
        (''z'', [(''id'', ''z''), (''title'', ''T3''), (''url'', ''u3'')]),
        (''s.c.m2'', [(''id'', ''s.c.m2''), (''title'', ''T4''), (''url'', ''u4'')]),
        (''mm'', [(''id'', ''mm''), (''title'', ''T5''), (''url'', ''u5'')]),
        (''m.c'', [(''id'', ''m.c''), (''title'', ''T6''), (''url'', ''u6'')]),
        (''s.c.m'', [(''id'', ''s.c.m''), (''title'', ''T7''), (''url'', ''u7''),
                     (''signature'', ''m()''), (''description'', ''d7'')]),
        (''cm'', [(''id'', ''cm''), (''title'', ''T8''), (''url'', ''u8'')]),
        (''x.s.c.m'', [(''id'', ''x.s.c.m''), (''title'', ''T9''), (''url'', ''u9'')])]\<rparr>"

definition crowded_reply :: member_reply where
  "crowded_reply =
     Member_found (''s'', ''c'', ''m'')
       \<lparr>best_id = ''s.c.m'', best_title = ''T7'', best_url = ''u7'',
         best_signature = ''m()'', best_description = ''d7''\<rparr>
       [\<lparr>alt_id = ''s.c.m2'', alt_title = ''T4'', alt_url = ''u4''\<rparr>,
        \<lparr>alt_id = ''x.s.c.m'', alt_title = ''T9'', alt_url = ''u9''\<rparr>,
        \<lparr>alt_id = ''c.m'', alt_title = ''T2'', alt_url = ''u2''\<rparr>,
        \<lparr>alt_id = ''m.c'', alt_title = ''T6'', alt_url = ''u6''\<rparr>,
        \<lparr>alt_id = ''cm'', alt_title = ''T8'', alt_url = ''u8''\<rparr>]"

text \<open>
  A site of three pages under the seed: the seed links to the second page twice (once with a
  fragment), to a page outside the allowed prefix and to the third page; the second page
  links back to the seed; the third page cannot be fetched. The member id \<open>A.f\<close> is
  defined on the seed and again on the second page.
\<close>

definition site_get :: "string \<Rightarrow> soup option" where
  "site_get u =
     (if u = ''https://krpc.github.io/krpc/python.html''
      then Some \<lparr>title_text = Some '' Python '', main_text = ''Hello'',
                  dts = [\<lparr>dt_id = ''A.f'', dt_text = ''f ( x )'', dd_text = Some ''first''\<rparr>],
                  hrefs = [''https://krpc.github.io/krpc/python/a.html#top'', [],
                           ''https://example.org/x.html'',
                           ''https://krpc.github.io/krpc/python/a.html'',
                           ''https://krpc.github.io/krpc/python/b.html?q=1'']\<rparr>
      else if u = ''https://krpc.github.io/krpc/python/a.html''
      then Some \<lparr>title_text = None, main_text = ''World'',
                  dts = [\<lparr>dt_id = '' A.f '', dt_text = ''f(y)'', dd_text = None\<rparr>,
                         \<lparr>dt_id = ''  '', dt_text = ''g'', dd_text = None\<rparr>,
                         \<lparr>dt_id = ''A.g'', dt_text = ''g()'', dd_text = Some ''second''\<rparr>],
                  hrefs = [''https://krpc.github.io/krpc/python.html'',
                           ''https://krpc.github.io/krpc/python/b.html'']\<rparr>
      else None)"

definition site_env :: env where
  "site_env =
     \<lparr>library = CPython_3_11_10, bracketed_host_ok = (\<lambda>h. False), urljoin = (\<lambda>b r. Inr r),
       http_get = site_get, now_check = 1000000, now_stamp = 2000000\<rparr>"

definition site_urls :: "string list" where
  "site_urls =
     [''https://krpc.github.io/krpc/python.html'',
      ''https://krpc.github.io/krpc/python/a.html'',
      ''https://krpc.github.io/krpc/python/b.html'']"

definition site_pages :: "DocPage list" where
  "site_pages =
     [\<lparr>page_url = ''https://krpc.github.io/krpc/python.html'', page_slug = ''python.html'',
        page_title = ''Python'', page_text = ''Hello''\<rparr>,
      \<lparr>page_url = ''https://krpc.github.io/krpc/python/a.html'', page_slug = ''python/a.html'',
        page_title = ''python/a.html'', page_text = ''World''\<rparr>]"

definition site_members :: member_dict where
  "site_members =
     [(''A.f'',
       [(''id'', ''A.f''), (''title'', ''python/a.html''),
        (''url'', ''https://krpc.github.io/krpc/python/a.html#A.f''),
        (''signature'', ''f(y)''), (''description'', [])]),
      (''A.g'',
       [(''id'', ''A.g''), (''title'', ''python/a.html''),
        (''url'', ''https://krpc.github.io/krpc/python/a.html#A.g''),
        (''signature'', ''g()''), (''description'', ''second'')])]"

definition site_final :: crawl_state where
  "site_final =
     \<lparr>to_visit = [], seen = fset_of_list site_urls, found_pages = site_pages,
       found_members = site_members, fetched = site_urls\<rparr>"

text \<open>
  A site whose seed links to two pages, the first of which holds a link that is not a URL:
  \<^verbatim>\<open>urljoin\<close> raises \<^verbatim>\<open>ValueError\<close> on \<open>http://[\<close>, as \<^verbatim>\<open>urlsplit\<close> does.
\<close>

definition broken_get :: "string \<Rightarrow> soup option" where
  "broken_get u =
     (if u = ''https://krpc.github.io/krpc/python.html''
      then Some \<lparr>title_text = Some ''Python'', main_text = ''Hello'', dts = [],
                  hrefs = [''https://krpc.github.io/krpc/python/a.html'',
                           ''https://krpc.github.io/krpc/python/b.html'']\<rparr>
      else if u = ''https://krpc.github.io/krpc/python/a.html''
      then Some \<lparr>title_text = Some ''A'', main_text = ''World'', dts = [],
                  hrefs = [''http://['']\<rparr>
      else None)"

definition broken_env :: env where
  "broken_env =
     \<lparr>library = CPython_3_11_10, bracketed_host_ok = (\<lambda>h. False),
       urljoin = (\<lambda>b r. if r = ''http://['' then Inl ValueError else Inr r),
       http_get = broken_get, now_check = 1000000, now_stamp = 2000000\<rparr>"

definition broken_final :: crawl_state where
  "broken_final =
     \<lparr>to_visit = [''https://krpc.github.io/krpc/python/b.html''],
       seen = fset_of_list [''https://krpc.github.io/krpc/python.html'',
                            ''https://krpc.github.io/krpc/python/a.html''],
       found_pages =
         [\<lparr>page_url = ''https://krpc.github.io/krpc/python.html'', page_slug = ''python.html'',
            page_title = ''Python'', page_text = ''Hello''\<rparr>,
          \<lparr>page_url = ''https://krpc.github.io/krpc/python/a.html'', page_slug = ''python/a.html'',
            page_title = ''A'', page_text = ''World''\<rparr>],
       found_members = [],
       fetched = [''https://krpc.github.io/krpc/python.html'',
                  ''https://krpc.github.io/krpc/python/a.html'']\<rparr>"

text \<open>An index that was built a moment ago and found no page.\<close>

definition empty_state :: index_state where
  "empty_state = \<lparr>pages = [], members = [], indexed_at = Some 0, disk = None\<rparr>"

section \<open>Properties\<close>

subsection \<open>Substrings\<close>

lemma startswith_iff: "startswith s p \<longleftrightarrow> (\<exists>post. s = p @ post)"
  unfolding startswith_def
  by (metis append_eq_conv_conj append_take_drop_id)

lemma contains_iff: "contains s sub \<longleftrightarrow> (\<exists>pre post. s = pre @ sub @ post)"
proof (induction s)
  case Nil
  then show ?case by auto
next
  case (Cons c cs)
  show ?case
  proof
    assume "contains (c # cs) sub"
    then consider "startswith (c # cs) sub" | "contains cs sub" by auto
    then show "\<exists>pre post. c # cs = pre @ sub @ post"
    proof cases
      case 1
      then obtain post where "c # cs = sub @ post" by (auto simp: startswith_iff)
      then have "c # cs = [] @ sub @ post" by simp
      then show ?thesis by blast
    next
      case 2
      with Cons.IH obtain pre post where "cs = pre @ sub @ post" by blast
      then have "c # cs = (c # pre) @ sub @ post" by simp
      then show ?thesis by blast
    qed
  next
    assume "\<exists>pre post. c # cs = pre @ sub @ post"
    then obtain pre post where e: "c # cs = pre @ sub @ post" by blast
    show "contains (c # cs) sub"
    proof (cases pre)
      case Nil
      with e have "startswith (c # cs) sub" by (auto simp: startswith_iff)
      then show ?thesis by simp
    next
      case (Cons d pre')
      with e have "cs = pre' @ sub @ post" by simp
      with Cons.IH have "contains cs sub" by blast
      then show ?thesis by simp
    qed
  qed
qed

lemma contains_empty: "contains s []"
  by (cases s) (simp_all add: startswith_def)



subsection \<open>The operations after \<^verbatim>\<open>ensure_fresh\<close>\<close>

lemma search_Inr:
  "search env st query limit = (gets, Inr (reply, st')) \<Longrightarrow>
     \<exists>status. ensure_fresh env st = (gets, Inr (status, st')) \<and> reply = search_index st' query limit"
  by (auto simp: search_def split: prod.splits sum.splits)

lemma demo_fresh:
  "ensure_fresh demo_env demo_state =
     ([], Inr (\<lparr>reply_status = ''ok'', reply_message = Index_is_fresh, reply_indexed_at = Some 0\<rparr>,
               demo_state))"
  by (simp add: ensure_fresh_def demo_env_def demo_state_def is_stale_def FRESH_WINDOW_def
      pages_by_slug_def demo_pages_def)

subsection \<open>The order and the number of the search results\<close>

lemma sorted_wrt_key_take_map:
  fixes key :: "'a \<Rightarrow> 'k :: linorder"
  assumes "\<And>a b. key a \<le> key b \<Longrightarrow> R (f a) (f b)"
  shows "sorted_wrt R (map f (take n (sort_key key xs)))"
proof -
  have "sorted (map key (sort_key key xs))" by (rule sorted_sort_key)
  then have "sorted_wrt (\<lambda>a b. key a \<le> key b) (sort_key key xs)"
    by (simp add: sorted_map)
  then have "sorted_wrt (\<lambda>a b. key a \<le> key b) (take n (sort_key key xs))"
    by (rule sorted_wrt_take)
  then have "sorted_wrt (\<lambda>a b. R (f a) (f b)) (take n (sort_key key xs))"
    by (rule sorted_wrt_mono_rel [rotated]) (use assms in blast)
  then show ?thesis by (simp add: sorted_wrt_map)
qed

lemma search_index_sorted:
  "sorted_wrt (\<lambda>a b. hit_score a > hit_score b
                  \<or> (hit_score a = hit_score b \<and> hit_slug a \<le> hit_slug b))
     (results (search_index st query limit))"
  unfolding search_index_def Let_def
  by (auto intro!: sorted_wrt_key_take_map simp: less_eq_prod_def)

lemma search_index_length:
  "int (length (results (search_index st query limit))) \<le> max 1 (min limit 20)"
  unfolding search_index_def Let_def by auto

text \<open>
  C1. Whenever \<^verbatim>\<open>search\<close> returns, for any query and any integer limit: of two results the
  earlier one has the greater score, or the same score and a slug that is not greater (strings
  compared by code points); and there are at most \<open>max 1 (min limit 20)\<close> results.
\<close>

theorem search_sorted_and_bounded:
  assumes "search env st query limit = (gets, Inr (reply, st'))"
  shows "sorted_wrt (\<lambda>a b. hit_score a > hit_score b
                        \<or> (hit_score a = hit_score b \<and> hit_slug a \<le> hit_slug b)) (results reply)
         \<and> int (length (results reply)) \<le> max 1 (min limit 20)"
  using search_Inr [OF assms] search_index_sorted search_index_length by auto

text \<open>
  On the small index, the query \<open>Vessel\<close> with limit 2: three pages match, the two that are
  returned have the scores 10 and 1, and of the two pages of score 1 the one with the lesser
  slug is returned.
\<close>

theorem search_sorted_and_bounded_witness:
  "search demo_env demo_state '' Vessel '' 2 =
     ([], Inr (\<lparr>reply_query = '' Vessel '',
                 results =
                   [\<lparr>hit_score = 10, hit_title = ''Vessel'', hit_slug = ''python/api/vessel.html'',
                      hit_url = ''https://krpc.github.io/krpc/python/api/vessel.html'',
                      hit_snippet = ''class Vessel''\<rparr>,
                    \<lparr>hit_score = 1, hit_title = ''SpaceCenter'', hit_slug = ''python/api.html'',
                      hit_url = ''https://krpc.github.io/krpc/python/api.html'',
                      hit_snippet = ''The active Vessel''\<rparr>]\<rparr>, demo_state))
   \<and> sorted_wrt (\<lambda>a b. hit_score a > hit_score b
                      \<or> (hit_score a = hit_score b \<and> hit_slug a \<le> hit_slug b))
        [\<lparr>hit_score = 10, hit_title = ''Vessel'', hit_slug = ''python/api/vessel.html'',
           hit_url = ''https://krpc.github.io/krpc/python/api/vessel.html'',
           hit_snippet = ''class Vessel''\<rparr>,
         \<lparr>hit_score = 1, hit_title = ''SpaceCenter'', hit_slug = ''python/api.html'',
           hit_url = ''https://krpc.github.io/krpc/python/api.html'',
           hit_snippet = ''The active Vessel''\<rparr>]
   \<and> int (length
        [\<lparr>hit_score = 10, hit_title = ''Vessel'', hit_slug = ''python/api/vessel.html'',
           hit_url = ''https://krpc.github.io/krpc/python/api/vessel.html'',
           hit_snippet = ''class Vessel''\<rparr>,
         \<lparr>hit_score = 1, hit_title = ''SpaceCenter'', hit_slug = ''python/api.html'',
           hit_url = ''https://krpc.github.io/krpc/python/api.html'',
           hit_snippet = ''The active Vessel''\<rparr>]) \<le> max 1 (min 2 20)"
proof -
  have h: "search demo_env demo_state '' Vessel '' 2 =
     ([], Inr (\<lparr>reply_query = '' Vessel '',
                 results =
                   [\<lparr>hit_score = 10, hit_title = ''Vessel'', hit_slug = ''python/api/vessel.html'',
                      hit_url = ''https://krpc.github.io/krpc/python/api/vessel.html'',
                      hit_snippet = ''class Vessel''\<rparr>,
                    \<lparr>hit_score = 1, hit_title = ''SpaceCenter'', hit_slug = ''python/api.html'',
                      hit_url = ''https://krpc.github.io/krpc/python/api.html'',
                      hit_snippet = ''The active Vessel''\<rparr>]\<rparr>, demo_state))"
    by code_simp
  show ?thesis
    using h search_sorted_and_bounded [OF h] by simp
qed

subsection \<open>The page dictionary\<close>

lemma dict_set_keys: "set (map fst (dict_set d k v)) = insert k (set (map fst d))"
  by (induction d k v rule: dict_set.induct) auto

lemma dict_set_distinct: "distinct (map fst d) \<Longrightarrow> distinct (map fst (dict_set d k v))"
proof (induction d k v rule: dict_set.induct)
  case (1 k v)
  then show ?case by simp
next
  case (2 k' v' d k v)
  then show ?case using dict_set_keys [of d k v] by auto
qed

lemma dict_set_all: "list_all P d \<Longrightarrow> P (k, v) \<Longrightarrow> list_all P (dict_set d k v)"
  by (induction d k v rule: dict_set.induct) auto

lemma pages_keyed_dict_set:
  "pages_keyed d \<Longrightarrow> pages_keyed (dict_set d (page_slug p) p)"
  unfolding pages_keyed_def by (simp add: dict_set_distinct dict_set_all)

lemma pages_keyed_foldl:
  "pages_keyed d \<Longrightarrow> pages_keyed (foldl (\<lambda>d p. dict_set d (page_slug p) p) d pgs)"
  by (induction pgs arbitrary: d) (simp_all add: pages_keyed_dict_set)

lemma pages_keyed_by_slug: "pages_keyed (pages_by_slug pgs)"
  unfolding pages_by_slug_def by (rule pages_keyed_foldl) (simp add: pages_keyed_def)

lemma reindex_keyed:
  "reindex env st force = (gets, Inr (status, st')) \<Longrightarrow> pages_keyed (pages st)
     \<Longrightarrow> pages_keyed (pages st')"
  by (auto simp: reindex_def Let_def pages_keyed_by_slug split: if_splits prod.splits sum.splits)

lemma ensure_fresh_keyed:
  "ensure_fresh env st = (gets, Inr (status, st')) \<Longrightarrow> pages_keyed (pages st)
     \<Longrightarrow> pages_keyed (pages st')"
  by (auto simp: ensure_fresh_def dest: reindex_keyed split: if_splits)

lemma pages_keyed_slugs: "pages_keyed d \<Longrightarrow> distinct (map page_slug (dict_values d))"
proof -
  assume k: "pages_keyed d"
  then have "map page_slug (dict_values d) = map fst d"
    unfolding pages_keyed_def dict_values_def by (induction d) auto
  with k show ?thesis by (simp add: pages_keyed_def)
qed

lemma page_score_eq:
  "page_score q page =
     (if \<exists>pre post. lower (page_title page) = pre @ q @ post then 5 else 0)
   + (if \<exists>pre post. lower (page_slug page) = pre @ q @ post then 4 else 0)
   + (if \<exists>pre post. lower (page_text page) = pre @ q @ post then 1 else 0)"
  unfolding page_score_def Let_def contains_iff by simp

lemma search_index_hits:
  assumes "h \<in> set (results (search_index st query limit))"
  shows "\<exists>page \<in> set (dict_values (pages st)).
           h = \<lparr>hit_score = page_score (lower (strip query)) page, hit_title = page_title page,
                 hit_slug = page_slug page, hit_url = page_url page,
                 hit_snippet = snippet_of (lower (strip query)) page\<rparr>
           \<and> 0 < page_score (lower (strip query)) page"
proof -
  let ?q = "lower (strip query)"
  let ?sorted = "sort_key (\<lambda>(score, page). (- score, page_slug page))
                          (scored_pages ?q (dict_values (pages st)))"
  from assms have q: "?q \<noteq> []"
    by (auto simp: search_index_def Let_def split: if_splits)
  with assms obtain sp where sp: "sp \<in> set (take (nat (max 1 (min limit 20))) ?sorted)"
    and h: "h = (case sp of (score, page) \<Rightarrow> \<lparr>hit_score = score, hit_title = page_title page,
                              hit_slug = page_slug page, hit_url = page_url page,
                              hit_snippet = snippet_of ?q page\<rparr>)"
    by (auto simp: search_index_def Let_def)
  from sp have "sp \<in> set ?sorted" by (rule in_set_takeD)
  then have "sp \<in> set (scored_pages ?q (dict_values (pages st)))" by simp
  then obtain page where "page \<in> set (dict_values (pages st))" "sp = (page_score ?q page, page)"
    "0 < page_score ?q page"
    by (auto simp: scored_pages_def)
  with h show ?thesis by auto
qed

subsection \<open>The scores of the search results\<close>

lemma search_index_count:
  "lower (strip query) \<noteq> [] \<Longrightarrow>
   length (results (search_index st query limit)) =
     min (nat (max 1 (min limit 20)))
       (length (filter (\<lambda>page. 0 < page_score (lower (strip query)) page) (dict_values (pages st))))"
proof -
  have "length (scored_pages q pgs) = length (filter (\<lambda>page. 0 < page_score q page) pgs)" for q pgs
    unfolding scored_pages_def by (induction pgs) auto
  moreover assume "lower (strip query) \<noteq> []"
  ultimately show ?thesis
    by (simp add: search_index_def Let_def min.commute)
qed

text \<open>
  C2. Whenever \<^verbatim>\<open>search\<close> returns on an index whose pages are stored under their slugs,
  with \<open>q\<close> the query stripped and in lower case: the score of a page is 5 if \<open>q\<close> occurs
  in its title in lower case, plus 4 if it occurs in its slug, plus 1 if it occurs in its text;
  every result is built from a page of the index, carries the score of that page, and that
  score is positive; no page of score 0 has its slug among the results; and for a query that
  is not empty after stripping, the results are as many as the pages of positive score, up to
  the clamped limit.
\<close>

theorem search_scores:
  assumes "search env st query limit = (gets, Inr (reply, st'))"
    and "pages_keyed (pages st)"
  shows "(\<forall>page. page_score (lower (strip query)) page =
             (if \<exists>pre post. lower (page_title page) = pre @ lower (strip query) @ post then 5 else 0)
           + (if \<exists>pre post. lower (page_slug page) = pre @ lower (strip query) @ post then 4 else 0)
           + (if \<exists>pre post. lower (page_text page) = pre @ lower (strip query) @ post then 1 else 0))
       \<and> (\<forall>h \<in> set (results reply). \<exists>page \<in> set (dict_values (pages st')).
             hit_title h = page_title page \<and> hit_slug h = page_slug page
             \<and> hit_url h = page_url page
             \<and> hit_score h = page_score (lower (strip query)) page \<and> 0 < hit_score h)
       \<and> (\<forall>page \<in> set (dict_values (pages st')).
             page_score (lower (strip query)) page = 0
             \<longrightarrow> page_slug page \<notin> hit_slug ` set (results reply))
       \<and> (strip query \<noteq> [] \<longrightarrow>
             length (results reply) =
               min (nat (max 1 (min limit 20)))
                 (length (filter (\<lambda>page. 0 < page_score (lower (strip query)) page)
                            (dict_values (pages st')))))"
proof -
  let ?q = "lower (strip query)"
  from search_Inr [OF assms(1)] obtain status where
    f: "ensure_fresh env st = (gets, Inr (status, st'))"
    and r: "reply = search_index st' query limit" by blast
  have hits: "\<exists>page \<in> set (dict_values (pages st')).
             hit_title h = page_title page \<and> hit_slug h = page_slug page
             \<and> hit_url h = page_url page
             \<and> hit_score h = page_score ?q page \<and> 0 < hit_score h"
    if "h \<in> set (results reply)" for h
  proof -
    from search_index_hits [OF that [unfolded r]] obtain page where
      "page \<in> set (dict_values (pages st'))"
      "h = \<lparr>hit_score = page_score ?q page, hit_title = page_title page,
                 hit_slug = page_slug page, hit_url = page_url page,
                 hit_snippet = snippet_of ?q page\<rparr>" "0 < page_score ?q page"
      by blast
    then show ?thesis by (intro bexI [of _ page]) simp_all
  qed
  have d: "distinct (map page_slug (dict_values (pages st')))"
    using ensure_fresh_keyed [OF f assms(2)] by (rule pages_keyed_slugs)
  have excl: "page_slug page \<notin> hit_slug ` set (results reply)"
    if p: "page \<in> set (dict_values (pages st'))" and z: "page_score ?q page = 0" for page
  proof
    assume "page_slug page \<in> hit_slug ` set (results reply)"
    then obtain h where h: "h \<in> set (results reply)" "hit_slug h = page_slug page" by auto
    from hits [OF h(1)] obtain page' where p': "page' \<in> set (dict_values (pages st'))"
      "hit_slug h = page_slug page'" "hit_score h = page_score ?q page'" "0 < hit_score h"
      by blast
    from d have "inj_on page_slug (set (dict_values (pages st')))"
      by (simp add: distinct_map)
    with p p' h(2) have "page' = page" by (auto dest: inj_onD)
    with p' z show False by simp
  qed
  have "lower s = [] \<longleftrightarrow> s = []" for s by (simp add: lower_def)
  then have cnt: "strip query \<noteq> [] \<longrightarrow>
             length (results reply) =
               min (nat (max 1 (min limit 20)))
                 (length (filter (\<lambda>page. 0 < page_score ?q page) (dict_values (pages st'))))"
    using search_index_count [of query st' limit] r by simp
  from page_score_eq hits excl cnt show ?thesis by blast
qed

theorem search_scores_witness:
  "search demo_env demo_state ''vessel'' 5 = ([], Inr (vessel_reply, demo_state))
   \<and> pages_keyed (pages demo_state)
   \<and> map hit_score (results vessel_reply) = [10, 1, 1]
   \<and> page_score ''vessel'' (demo_pages ! 3) = 0
   \<and> page_slug (demo_pages ! 3) \<notin> hit_slug ` set (results vessel_reply)"
proof -
  have h: "search demo_env demo_state ''vessel'' 5 = ([], Inr (vessel_reply, demo_state))"
    by code_simp
  have k: "pages_keyed (pages demo_state)"
    by code_simp
  have c: "map hit_score (results vessel_reply) = [10, 1, 1]"
    "page_score ''vessel'' (demo_pages ! 3) = 0"
    "page_slug (demo_pages ! 3) \<notin> hit_slug ` set (results vessel_reply)"
    by code_simp+
  show ?thesis
    using search_scores [OF h k] h k c by simp
qed

subsection \<open>The snippets of the search results\<close>







subsection \<open>The member resolver\<close>

lemma get_member_Inr:
  "get_member env st service class_name member = (gets, Inr (reply, st')) \<Longrightarrow>
     \<exists>status. ensure_fresh env st = (gets, Inr (status, st'))
        \<and> reply = get_member_index st' service class_name member"
  by (auto simp: get_member_def split: prod.splits sum.splits)

lemma member_score_eq:
  "member_score service class_name member mid =
     (if lower (service @ ''.'' @ class_name @ ''.'' @ member) = lower mid then 100
      else if \<exists>pre post. lower mid = pre @ lower (service @ ''.'' @ class_name @ ''.'' @ member) @ post
      then 80
      else if (\<exists>pre post. lower mid = pre @ lower member @ post)
              \<and> (\<exists>pre post. lower mid = pre @ lower class_name @ post) then 50
      else if \<exists>pre post. lower mid = pre @ lower member @ post then 20
      else 0)"
  unfolding member_score_def Let_def contains_iff by simp

lemma member_score_nonneg: "0 \<le> member_score service class_name member mid"
  by (simp add: member_score_def Let_def)

lemma member_score_empty: "20 \<le> member_score service class_name [] mid"
  by (simp add: member_score_def Let_def lower_def contains_empty)

lemma candidates_of_set:
  "(sc, mid, entry) \<in> set (candidates_of service class_name member mbs) \<longleftrightarrow>
     (mid, entry) \<in> set mbs \<and> sc = member_score service class_name member mid \<and> sc \<noteq> 0"
  by (auto simp: candidates_of_def)

lemma candidates_of_length:
  "length (candidates_of service class_name member mbs) =
     length (filter (\<lambda>(mid, entry). member_score service class_name member mid \<noteq> 0) mbs)"
  unfolding candidates_of_def by (induction mbs) auto

lemma candidates_of_empty:
  "candidates_of service class_name member mbs = [] \<longleftrightarrow>
     (\<forall>(mid, entry) \<in> set mbs. member_score service class_name member mid = 0)"
  unfolding candidates_of_def by (auto simp: filter_empty_conv)

lemma sort_key_Nil_iff: "sort_key f xs = [] \<longleftrightarrow> xs = []"
  by (metis length_sort list.size(3) length_0_conv)

lemma sorted_candidates_empty:
  "sort_key f (candidates_of service class_name member mbs) = [] \<longleftrightarrow>
     (\<forall>(mid, entry) \<in> set mbs. member_score service class_name member mid = 0)"
  by (simp only: sort_key_Nil_iff candidates_of_empty)

lemma get_member_index_not_found:
  "(\<exists>e msg. get_member_index st service class_name member = Member_not_found e msg) \<longleftrightarrow>
     (\<forall>(mid, entry) \<in> set (members st). member_score service class_name member mid = 0)"
proof -
  let ?sorted = "sort_key (\<lambda>(score :: int, mid :: string, entry :: (string \<times> string) list). - score)
                (candidates_of service class_name member (members st))"
  have e: "?sorted = [] \<longleftrightarrow>
     (\<forall>(mid, entry) \<in> set (members st). member_score service class_name member mid = 0)"
    by (rule sorted_candidates_empty)
  show ?thesis
  proof (cases ?sorted)
    case Nil
    with e show ?thesis by (simp add: get_member_index_def)
  next
    case (Cons b rest)
    with e show ?thesis by (simp add: get_member_index_def)
  qed
qed

lemma get_member_index_not_found_eq:
  assumes "\<forall>(mid, entry) \<in> set (members st). member_score service class_name member mid = 0"
  shows "get_member_index st service class_name member =
     Member_not_found ''not_found''
       (''No API member matched '' @ service @ ''.'' @ class_name @ ''.'' @ member)"
proof -
  have "sort_key (\<lambda>(score :: int, mid :: string, entry :: (string \<times> string) list). - score)
          (candidates_of service class_name member (members st)) = []"
    using assms by (simp only: sorted_candidates_empty)
  then show ?thesis by (simp add: get_member_index_def)
qed

lemma get_member_index_found:
  assumes "get_member_index st service class_name member = Member_found q best alts"
  defines "sc \<equiv> member_score service class_name member"
  shows "(\<exists>entry. (best_id best, entry) \<in> set (members st)
            \<and> best_title best = get_or_empty entry ''title''
            \<and> best_url best = get_or_empty entry ''url''
            \<and> best_signature best = get_or_empty entry ''signature''
            \<and> best_description best = get_or_empty entry ''description'')"
    and "0 < sc (best_id best)"
    and "\<forall>(mid, entry) \<in> set (members st). sc mid \<le> sc (best_id best)"
    and "length alts = min 5 (length (filter (\<lambda>(mid, entry). sc mid \<noteq> 0) (members st)) - 1)"
    and "sorted_wrt (\<lambda>a b. sc a \<ge> sc b) (best_id best # map alt_id alts)"
    and "\<forall>a \<in> set alts. 0 < sc (alt_id a)
            \<and> (\<exists>entry. (alt_id a, entry) \<in> set (members st)
                  \<and> alt_title a = get_or_empty entry ''title''
                  \<and> alt_url a = get_or_empty entry ''url'')"
    and "q = (service, class_name, member)"
proof -
  let ?cands = "candidates_of service class_name member (members st)"
  let ?key = "\<lambda>(score :: int, mid :: string, entry :: (string \<times> string) list). - score"
  let ?sorted = "sort_key ?key ?cands"
  from assms(1) obtain b rest where s: "?sorted = b # rest"
    and q: "q = (service, class_name, member)"
    and best: "best = \<lparr>best_id = fst (snd b),
                 best_title = get_or_empty (snd (snd b)) ''title'',
                 best_url = get_or_empty (snd (snd b)) ''url'',
                 best_signature = get_or_empty (snd (snd b)) ''signature'',
                 best_description = get_or_empty (snd (snd b)) ''description''\<rparr>"
    and alts: "alts = map (\<lambda>(score, mid, entry).
                       \<lparr>alt_id = mid, alt_title = get_or_empty entry ''title'',
                         alt_url = get_or_empty entry ''url''\<rparr>) (take 5 rest)"
    unfolding get_member_index_def Let_def by (auto split: list.splits)
  have mem: "x \<in> set ?sorted \<Longrightarrow> (fst (snd x), snd (snd x)) \<in> set (members st)
       \<and> fst x = sc (fst (snd x)) \<and> fst x \<noteq> 0" for x
    using candidates_of_set [of "fst x" "fst (snd x)" "snd (snd x)" service class_name member "members st"]
    by (simp add: sc_def)
  have pos: "x \<in> set ?sorted \<Longrightarrow> 0 < sc (fst (snd x))" for x
    using mem [of x] member_score_nonneg [of service class_name member "fst (snd x)"]
    by (simp add: sc_def)
  have b: "b \<in> set ?sorted" using s by simp
  have rest: "x \<in> set rest \<Longrightarrow> x \<in> set ?sorted" for x using s by simp
  from mem [OF b] best show "\<exists>entry. (best_id best, entry) \<in> set (members st)
            \<and> best_title best = get_or_empty entry ''title''
            \<and> best_url best = get_or_empty entry ''url''
            \<and> best_signature best = get_or_empty entry ''signature''
            \<and> best_description best = get_or_empty entry ''description''"
    by (intro exI [of _ "snd (snd b)"]) simp
  from pos [OF b] best show "0 < sc (best_id best)" by simp
  have srt: "sorted (map ?key ?sorted)" by (rule sorted_sort_key)
  then have srt': "sorted_wrt (\<lambda>x y. ?key x \<le> ?key y) (b # rest)"
    using s by (simp add: sorted_map)
  have key: "x \<in> set ?sorted \<Longrightarrow> ?key x = - sc (fst (snd x))" for x
    using mem [of x] by (cases x) simp
  show "\<forall>(mid, entry) \<in> set (members st). sc mid \<le> sc (best_id best)"
  proof (intro ballI, clarify)
    fix mid entry assume m: "(mid, entry) \<in> set (members st)"
    show "sc mid \<le> sc (best_id best)"
    proof (cases "sc mid = 0")
      case True
      with \<open>0 < sc (best_id best)\<close> show ?thesis by simp
    next
      case False
      with m have "(sc mid, mid, entry) \<in> set ?cands"
        by (simp add: candidates_of_set sc_def)
      then have "(sc mid, mid, entry) \<in> set (b # rest)" using s by (metis set_sort)
      then have "?key b \<le> ?key (sc mid, mid, entry)"
        using srt' by auto
      then show ?thesis using key [OF b] best by simp
    qed
  qed
  have "length ?sorted = length ?cands" by simp
  then have "length rest = length (filter (\<lambda>(mid, entry). sc mid \<noteq> 0) (members st)) - 1"
    using s by (simp add: candidates_of_length sc_def)
  then show "length alts = min 5 (length (filter (\<lambda>(mid, entry). sc mid \<noteq> 0) (members st)) - 1)"
    using alts by (simp add: min.commute)
  have ids: "best_id best # map alt_id alts = map (\<lambda>x. fst (snd x)) (b # take 5 rest)"
    using best alts by (auto simp: case_prod_beta)
  have s6: "sorted_wrt (\<lambda>x y. ?key x \<le> ?key y) (b # take 5 rest)"
    using srt' sorted_wrt_take [of "\<lambda>x y. ?key x \<le> ?key y" "b # rest" 6] by simp
  have k5: "?key x = - sc (fst (snd x))" if "x \<in> set (b # take 5 rest)" for x
  proof -
    from that have "x = b \<or> x \<in> set rest" by (auto dest: in_set_takeD)
    then have "x \<in> set ?sorted" using b rest by blast
    then show ?thesis by (rule key)
  qed
  have "sorted_wrt (\<lambda>x y. sc (fst (snd x)) \<ge> sc (fst (snd y))) (b # take 5 rest)"
  proof (rule sorted_wrt_mono_rel [OF _ s6])
    fix x y
    assume "x \<in> set (b # take 5 rest)" "y \<in> set (b # take 5 rest)" "?key x \<le> ?key y"
    then show "sc (fst (snd x)) \<ge> sc (fst (snd y))"
      using k5 [of x] k5 [of y] by simp
  qed
  then show "sorted_wrt (\<lambda>a b. sc a \<ge> sc b) (best_id best # map alt_id alts)"
    unfolding ids by (simp add: sorted_wrt_map)
  show "\<forall>a \<in> set alts. 0 < sc (alt_id a)
            \<and> (\<exists>entry. (alt_id a, entry) \<in> set (members st)
                  \<and> alt_title a = get_or_empty entry ''title''
                  \<and> alt_url a = get_or_empty entry ''url'')"
  proof
    fix a assume "a \<in> set alts"
    with alts obtain x where x: "x \<in> set (take 5 rest)"
      "a = \<lparr>alt_id = fst (snd x), alt_title = get_or_empty (snd (snd x)) ''title'',
                         alt_url = get_or_empty (snd (snd x)) ''url''\<rparr>"
      by (auto simp: case_prod_beta)
    from x(1) have "x \<in> set rest" by (rule in_set_takeD)
    then have xs: "x \<in> set ?sorted" by (rule rest)
    from mem [OF xs] pos [OF xs] x(2)
    show "0 < sc (alt_id a)
            \<and> (\<exists>entry. (alt_id a, entry) \<in> set (members st)
                  \<and> alt_title a = get_or_empty entry ''title''
                  \<and> alt_url a = get_or_empty entry ''url'')"
      by (intro conjI exI [of _ "snd (snd x)"]) simp_all
  qed
  show "q = (service, class_name, member)" by (rule q)
qed

lemma filter_take_prefix:
  "filter P (take n xs) = take (length (filter P (take n xs))) (filter P xs)"
proof (induction xs arbitrary: n)
  case Nil
  then show ?case by simp
next
  case (Cons x xs)
  show ?case
  proof (cases n)
    case 0
    then show ?thesis by simp
  next
    case (Suc m)
    with Cons [of m] show ?thesis by simp
  qed
qed

lemma candidates_of_ids:
  "map (\<lambda>x. fst (snd x)) (candidates_of service class_name member mbs) =
     filter (\<lambda>m. member_score service class_name member m \<noteq> 0) (map fst mbs)"
  unfolding candidates_of_def by (induction mbs) auto

lemma get_member_index_runners_up:
  assumes "get_member_index st service class_name member = Member_found q best alts"
  defines "sc \<equiv> member_score service class_name member"
  defines "listed \<equiv> best_id best # map alt_id alts"
  shows "distinct (map fst (members st)) \<longrightarrow> distinct listed"
    and "\<forall>(mid, entry) \<in> set (members st).
           sc mid \<noteq> 0 \<and> mid \<notin> set listed \<longrightarrow> (\<forall>a \<in> set listed. sc mid \<le> sc a)"
    and "\<forall>k. filter (\<lambda>m. sc m = k) listed =
              take (length (filter (\<lambda>m. sc m = k) listed))
                (filter (\<lambda>m. sc m = k) (map fst (members st)))"
proof -
  let ?cands = "candidates_of service class_name member (members st)"
  let ?key = "\<lambda>(score :: int, mid :: string, entry :: (string \<times> string) list). - score"
  let ?sorted = "sort_key ?key ?cands"
  let ?mid = "\<lambda>x :: int \<times> string \<times> (string \<times> string) list. fst (snd x)"
  from assms(1) obtain b rest where s: "?sorted = b # rest"
    and best: "best_id best = fst (snd b)"
    and alts: "alts = map (\<lambda>(score, mid, entry).
                       \<lparr>alt_id = mid, alt_title = get_or_empty entry ''title'',
                         alt_url = get_or_empty entry ''url''\<rparr>) (take 5 rest)"
    unfolding get_member_index_def Let_def by (auto split: list.splits)
  have t6: "take 6 ?sorted = b # take 5 rest" unfolding s by simp
  have listed: "listed = map ?mid (take 6 ?sorted)"
    unfolding t6 listed_def using best alts by (auto simp: case_prod_beta)
  have mem: "x \<in> set ?sorted \<Longrightarrow> (?mid x, snd (snd x)) \<in> set (members st)
       \<and> fst x = sc (?mid x) \<and> fst x \<noteq> 0" for x
    using candidates_of_set [of "fst x" "fst (snd x)" "snd (snd x)" service class_name member "members st"]
    by (simp add: sc_def)
  have key: "x \<in> set ?sorted \<Longrightarrow> ?key x = - sc (?mid x)" for x
    using mem [of x] by (cases x) simp
  have ids: "map ?mid ?cands = filter (\<lambda>m. sc m \<noteq> 0) (map fst (members st))"
    unfolding sc_def by (rule candidates_of_ids)
  show "distinct (map fst (members st)) \<longrightarrow> distinct listed"
  proof
    assume "distinct (map fst (members st))"
    then have "distinct (map ?mid ?cands)" unfolding ids by (rule distinct_filter)
    then have "distinct ?cands \<and> inj_on ?mid (set ?cands)" by (simp only: distinct_map)
    then have "distinct ?sorted \<and> inj_on ?mid (set ?sorted)" by simp
    then have "distinct (map ?mid ?sorted)" by (simp only: distinct_map)
    then have "distinct (take 6 (map ?mid ?sorted))" by (rule distinct_take)
    then show "distinct listed" unfolding listed by (simp add: take_map)
  qed
  have srt: "sorted (map ?key ?sorted)" by (rule sorted_sort_key)
  then have srt': "sorted_wrt (\<lambda>x y. ?key x \<le> ?key y) (take 6 ?sorted @ drop 6 ?sorted)"
    by (simp add: sorted_map)
  show "\<forall>(mid, entry) \<in> set (members st).
           sc mid \<noteq> 0 \<and> mid \<notin> set listed \<longrightarrow> (\<forall>a \<in> set listed. sc mid \<le> sc a)"
  proof (intro ballI, clarify)
    fix mid entry a
    assume m: "(mid, entry) \<in> set (members st)" and nz: "sc mid \<noteq> 0"
      and nl: "mid \<notin> set listed" and a: "a \<in> set listed"
    from m nz have "(sc mid, mid, entry) \<in> set ?cands"
      by (simp add: candidates_of_set sc_def)
    then have in_s: "(sc mid, mid, entry) \<in> set ?sorted" by simp
    then have "(sc mid, mid, entry) \<in> set (take 6 ?sorted) \<union> set (drop 6 ?sorted)"
      by (metis append_take_drop_id set_append)
    moreover from nl have "(sc mid, mid, entry) \<notin> set (take 6 ?sorted)"
      unfolding listed by force
    ultimately have d: "(sc mid, mid, entry) \<in> set (drop 6 ?sorted)" by blast
    from a obtain x where x: "x \<in> set (take 6 ?sorted)" "a = ?mid x"
      unfolding listed by auto
    from srt' x(1) d have "?key x \<le> ?key (sc mid, mid, entry)"
      unfolding sorted_wrt_append by blast
    moreover from x(1) have "x \<in> set ?sorted" by (rule in_set_takeD)
    ultimately show "sc mid \<le> sc a"
      using key [of x] x(2) by simp
  qed
  show "\<forall>k. filter (\<lambda>m. sc m = k) listed =
              take (length (filter (\<lambda>m. sc m = k) listed))
                (filter (\<lambda>m. sc m = k) (map fst (members st)))"
  proof
    fix k
    show "filter (\<lambda>m. sc m = k) listed =
              take (length (filter (\<lambda>m. sc m = k) listed))
                (filter (\<lambda>m. sc m = k) (map fst (members st)))"
    proof (cases "k = 0")
      case True
      have "sc m \<noteq> 0" if "m \<in> set listed" for m
      proof -
        from that obtain x where "x \<in> set (take 6 ?sorted)" "m = ?mid x"
          unfolding listed by auto
        then show ?thesis using mem [of x] by (auto dest: in_set_takeD)
      qed
      then have "filter (\<lambda>m. sc m = k) listed = []"
        unfolding True by (simp add: filter_empty_conv)
      then show ?thesis by simp
    next
      case False
      let ?P = "\<lambda>x. sc (?mid x) = k"
      have 1: "filter (\<lambda>m. sc m = k) listed = map ?mid (filter ?P (take 6 ?sorted))"
        unfolding listed by (simp add: filter_map o_def)
      have "filter ?P ?sorted = filter (\<lambda>x. ?key x = - k) ?sorted"
        by (rule filter_cong) (use key in auto)
      also have "\<dots> = filter (\<lambda>x. ?key x = - k) ?cands" by (rule sort_key_stable)
      also have "\<dots> = filter ?P ?cands"
      proof (rule filter_cong)
        fix x assume "x \<in> set ?cands"
        then have "x \<in> set ?sorted" by simp
        from key [OF this] show "(?key x = - k) = ?P x" by auto
      qed simp
      finally have 2: "filter ?P ?sorted = filter ?P ?cands" .
      have "map ?mid (filter ?P ?cands) = filter (\<lambda>m. sc m = k) (map ?mid ?cands)"
        by (simp add: filter_map o_def)
      also have "\<dots> = filter (\<lambda>m. sc m = k) (map fst (members st))"
        unfolding ids using False by (simp add: conj_commute cong: conj_cong)
      finally have 3: "map ?mid (filter ?P ?cands) = filter (\<lambda>m. sc m = k) (map fst (members st))" .
      define j where "j = length (filter ?P (take 6 ?sorted))"
      have "filter ?P (take 6 ?sorted) = take j (filter ?P ?sorted)"
        unfolding j_def by (rule filter_take_prefix)
      then have "map ?mid (filter ?P (take 6 ?sorted)) = map ?mid (take j (filter ?P ?sorted))"
        by (rule arg_cong)
      then have 4: "filter (\<lambda>m. sc m = k) listed =
          take j (filter (\<lambda>m. sc m = k) (map fst (members st)))"
        unfolding 1 2 take_map [symmetric] 3 .
      have "j = length (filter (\<lambda>m. sc m = k) listed)"
        unfolding 1 j_def by (rule length_map [symmetric])
      with 4 show ?thesis by (simp only:)
    qed
  qed
qed

lemma get_member_fresh:
  "ensure_fresh env st = (gets, Inr (status, st')) \<Longrightarrow>
   get_member env st service class_name member =
     (gets, Inr (get_member_index st' service class_name member, st'))"
  by (simp add: get_member_def)

text \<open>
  C3. Whenever \<^verbatim>\<open>get_member\<close> returns: the score of a member id is 100 when the composite
  key in lower case equals the id in lower case, else 80 when the key occurs in it, else 50
  when the member name and the class name both occur in it, else 20 when the member name
  occurs in it, else 0; the not-found reply is given exactly when every indexed id scores 0;
  and a found reply names the query, gives as best match a member of the index with its
  title, url, signature and description, whose score is positive and is the greatest of all,
  and gives as alternatives the next candidates, up to five, in the order of descending score,
  each a member of the index of positive score with its title and url. The best match and
  the alternatives are the runners-up of the ranking: no id is listed twice (the keys of the
  member map being distinct); no member of positive score that is not listed scores more
  than a listed one; and for every score, the listed ids of that score are the first ids of
  that score in the order of the member map.
\<close>

theorem get_member_ranking:
  assumes "get_member env st service class_name member = (gets, Inr (reply, st'))"
  shows "(\<forall>mid. member_score service class_name member mid =
            (if lower (service @ ''.'' @ class_name @ ''.'' @ member) = lower mid then 100
             else if \<exists>pre post. lower mid =
                       pre @ lower (service @ ''.'' @ class_name @ ''.'' @ member) @ post then 80
             else if (\<exists>pre post. lower mid = pre @ lower member @ post)
                     \<and> (\<exists>pre post. lower mid = pre @ lower class_name @ post) then 50
             else if \<exists>pre post. lower mid = pre @ lower member @ post then 20
             else 0))
       \<and> ((\<exists>e msg. reply = Member_not_found e msg) \<longleftrightarrow>
            (\<forall>(mid, entry) \<in> set (members st').
                member_score service class_name member mid = 0))
       \<and> (\<forall>q best alts. reply = Member_found q best alts \<longrightarrow>
            q = (service, class_name, member)
            \<and> (\<exists>entry. (best_id best, entry) \<in> set (members st')
                   \<and> best_title best = get_or_empty entry ''title''
                   \<and> best_url best = get_or_empty entry ''url''
                   \<and> best_signature best = get_or_empty entry ''signature''
                   \<and> best_description best = get_or_empty entry ''description'')
            \<and> 0 < member_score service class_name member (best_id best)
            \<and> (\<forall>(mid, entry) \<in> set (members st').
                   member_score service class_name member mid
                     \<le> member_score service class_name member (best_id best))
            \<and> length alts =
                  min 5 (length (filter (\<lambda>(mid, entry).
                                    member_score service class_name member mid \<noteq> 0)
                                  (members st')) - 1)
            \<and> sorted_wrt (\<lambda>a b. member_score service class_name member a
                                 \<ge> member_score service class_name member b)
                  (best_id best # map alt_id alts)
            \<and> (\<forall>a \<in> set alts.
                   0 < member_score service class_name member (alt_id a)
                   \<and> (\<exists>entry. (alt_id a, entry) \<in> set (members st')
                          \<and> alt_title a = get_or_empty entry ''title''
                          \<and> alt_url a = get_or_empty entry ''url''))
            \<and> (distinct (map fst (members st')) \<longrightarrow> distinct (best_id best # map alt_id alts))
            \<and> (\<forall>(mid, entry) \<in> set (members st').
                   member_score service class_name member mid \<noteq> 0
                   \<and> mid \<notin> set (best_id best # map alt_id alts) \<longrightarrow>
                   (\<forall>a \<in> set (best_id best # map alt_id alts).
                       member_score service class_name member mid
                         \<le> member_score service class_name member a))
            \<and> (\<forall>k. filter (\<lambda>m. member_score service class_name member m = k)
                       (best_id best # map alt_id alts) =
                     take (length (filter (\<lambda>m. member_score service class_name member m = k)
                                     (best_id best # map alt_id alts)))
                       (filter (\<lambda>m. member_score service class_name member m = k)
                          (map fst (members st')))))"
proof -
  from get_member_Inr [OF assms] have r: "reply = get_member_index st' service class_name member"
    by blast
  have 1: "(\<exists>e msg. reply = Member_not_found e msg) \<longleftrightarrow>
            (\<forall>(mid, entry) \<in> set (members st').
                member_score service class_name member mid = 0)"
    unfolding r by (rule get_member_index_not_found)
  have 2: "q = (service, class_name, member)
            \<and> (\<exists>entry. (best_id best, entry) \<in> set (members st')
                   \<and> best_title best = get_or_empty entry ''title''
                   \<and> best_url best = get_or_empty entry ''url''
                   \<and> best_signature best = get_or_empty entry ''signature''
                   \<and> best_description best = get_or_empty entry ''description'')
            \<and> 0 < member_score service class_name member (best_id best)
            \<and> (\<forall>(mid, entry) \<in> set (members st').
                   member_score service class_name member mid
                     \<le> member_score service class_name member (best_id best))
            \<and> length alts =
                  min 5 (length (filter (\<lambda>(mid, entry).
                                    member_score service class_name member mid \<noteq> 0)
                                  (members st')) - 1)
            \<and> sorted_wrt (\<lambda>a b. member_score service class_name member a
                                 \<ge> member_score service class_name member b)
                  (best_id best # map alt_id alts)
            \<and> (\<forall>a \<in> set alts.
                   0 < member_score service class_name member (alt_id a)
                   \<and> (\<exists>entry. (alt_id a, entry) \<in> set (members st')
                          \<and> alt_title a = get_or_empty entry ''title''
                          \<and> alt_url a = get_or_empty entry ''url''))
            \<and> (distinct (map fst (members st')) \<longrightarrow> distinct (best_id best # map alt_id alts))
            \<and> (\<forall>(mid, entry) \<in> set (members st').
                   member_score service class_name member mid \<noteq> 0
                   \<and> mid \<notin> set (best_id best # map alt_id alts) \<longrightarrow>
                   (\<forall>a \<in> set (best_id best # map alt_id alts).
                       member_score service class_name member mid
                         \<le> member_score service class_name member a))
            \<and> (\<forall>k. filter (\<lambda>m. member_score service class_name member m = k)
                       (best_id best # map alt_id alts) =
                     take (length (filter (\<lambda>m. member_score service class_name member m = k)
                                     (best_id best # map alt_id alts)))
                       (filter (\<lambda>m. member_score service class_name member m = k)
                          (map fst (members st'))))"
    if "reply = Member_found q best alts" for q best alts
    using get_member_index_found [OF that [unfolded r]]
      get_member_index_runners_up [OF that [unfolded r]]
    by (intro conjI)
  from member_score_eq 1 2 show ?thesis by blast
qed

text \<open>
  On the small index the ids score 100, 80, 50, 20 and 0, and the reply lists the first four
  in that order, although the index holds them in another order. On the index of nine
  members, eight of positive score, the reply lists the six of the scores 100, 80, 80, 50, 50
  and 50, those of equal score in the order of the index, and leaves out the two that score 20.
\<close>

theorem get_member_ranking_witness:
  "get_member demo_env demo_state ''SpaceCenter'' ''Vessel'' ''name'' =
     ([], Inr (name_reply, demo_state))
   \<and> map (member_score ''SpaceCenter'' ''Vessel'' ''name'')
        [''SpaceCenter.Vessel.name'', ''krpc.SpaceCenter.Vessel.name'',
         ''SpaceCenter.Vessel.rename'', ''SpaceCenter.Part.name'', ''SpaceCenter.Vessel'']
      = [100, 80, 50, 20, 0]
   \<and> distinct (map fst (members demo_state))
   \<and> get_member demo_env crowded_state ''s'' ''c'' ''m'' = ([], Inr (crowded_reply, crowded_state))
   \<and> map (\<lambda>(mid, entry). (mid, member_score ''s'' ''c'' ''m'' mid)) (members crowded_state)
      = [(''m'', 20), (''c.m'', 50), (''z'', 0), (''s.c.m2'', 80), (''mm'', 20), (''m.c'', 50),
         (''s.c.m'', 100), (''cm'', 50), (''x.s.c.m'', 80)]
   \<and> distinct (map fst (members crowded_state))"
proof -
  have h2: "get_member demo_env crowded_state ''s'' ''c'' ''m'' =
     ([], Inr (crowded_reply, crowded_state))"
    by code_simp
  have c2: "map (\<lambda>(mid, entry). (mid, member_score ''s'' ''c'' ''m'' mid)) (members crowded_state)
      = [(''m'', 20), (''c.m'', 50), (''z'', 0), (''s.c.m2'', 80), (''mm'', 20), (''m.c'', 50),
         (''s.c.m'', 100), (''cm'', 50), (''x.s.c.m'', 80)]"
    by code_simp
  have d: "distinct (map fst (members demo_state))" "distinct (map fst (members crowded_state))"
    by code_simp+
  have h: "get_member demo_env demo_state ''SpaceCenter'' ''Vessel'' ''name'' =
     ([], Inr (name_reply, demo_state))"
    by code_simp
  have c: "map (member_score ''SpaceCenter'' ''Vessel'' ''name'')
        [''SpaceCenter.Vessel.name'', ''krpc.SpaceCenter.Vessel.name'',
         ''SpaceCenter.Vessel.rename'', ''SpaceCenter.Part.name'', ''SpaceCenter.Vessel'']
      = [100, 80, 50, 20, 0]"
    by code_simp
  show ?thesis
    using get_member_ranking [OF h] get_member_ranking [OF h2] h c h2 c2 d by simp
qed

text \<open>
  C9. With the empty string as the member name every id scores at least 20, so on an index
  whose member map is not empty (after \<^verbatim>\<open>ensure_fresh\<close>) \<^verbatim>\<open>get_member\<close> returns a found
  reply.
\<close>

theorem get_member_empty_member:
  assumes "ensure_fresh env st = (gets, Inr (status, st'))" and "members st' \<noteq> []"
  shows "(\<forall>mid. 20 \<le> member_score service class_name [] mid)
       \<and> (\<exists>q best alts. get_member env st service class_name [] =
                            (gets, Inr (Member_found q best alts, st')))"
proof -
  from assms(2) obtain mid entry where m: "(mid, entry) \<in> set (members st')"
    by (cases "members st'") auto
  have "member_score service class_name [] mid \<noteq> 0"
    using member_score_empty [of service class_name mid] by simp
  with m have "\<not> (\<forall>(mid, entry) \<in> set (members st'). member_score service class_name [] mid = 0)"
    by blast
  then have "\<not> (\<exists>e msg. get_member_index st' service class_name [] = Member_not_found e msg)"
    using get_member_index_not_found [of st' service class_name "[]"] by blast
  then obtain q best alts where "get_member_index st' service class_name [] = Member_found q best alts"
    by (cases "get_member_index st' service class_name []") auto
  then have "get_member env st service class_name [] =
               (gets, Inr (Member_found q best alts, st'))"
    by (simp add: get_member_fresh [OF assms(1)])
  then have "\<exists>q best alts. get_member env st service class_name [] =
                            (gets, Inr (Member_found q best alts, st'))"
    by blast
  with member_score_empty show ?thesis by blast
qed

theorem get_member_empty_member_witness:
  "ensure_fresh demo_env demo_state =
     ([], Inr (\<lparr>reply_status = ''ok'', reply_message = Index_is_fresh,
                 reply_indexed_at = Some 0\<rparr>, demo_state))
   \<and> members demo_state \<noteq> []
   \<and> get_member demo_env demo_state ''SpaceCenter'' ''Vessel'' [] =
       ([], Inr (Member_found (''SpaceCenter'', ''Vessel'', [])
                   \<lparr>best_id = ''SpaceCenter.Vessel.rename'', best_title = ''Vessel'',
                     best_url = ''u3'', best_signature = ''rename()'',
                     best_description = ''d3''\<rparr>
                   [\<lparr>alt_id = ''krpc.SpaceCenter.Vessel.name'', alt_title = ''Old'',
                      alt_url = ''u4''\<rparr>,
                    \<lparr>alt_id = ''SpaceCenter.Vessel.name'', alt_title = ''Vessel'',
                      alt_url = ''u5''\<rparr>,
                    \<lparr>alt_id = ''SpaceCenter.Vessel'', alt_title = ''Vessel'',
                      alt_url = ''u2''\<rparr>,
                    \<lparr>alt_id = ''SpaceCenter.Part.name'', alt_title = ''Part'',
                      alt_url = ''u1''\<rparr>], demo_state))"
proof -
  have m: "members demo_state \<noteq> []"
    by (simp add: demo_state_def demo_members_def)
  have c: "get_member demo_env demo_state ''SpaceCenter'' ''Vessel'' [] =
       ([], Inr (Member_found (''SpaceCenter'', ''Vessel'', [])
                   \<lparr>best_id = ''SpaceCenter.Vessel.rename'', best_title = ''Vessel'',
                     best_url = ''u3'', best_signature = ''rename()'',
                     best_description = ''d3''\<rparr>
                   [\<lparr>alt_id = ''krpc.SpaceCenter.Vessel.name'', alt_title = ''Old'',
                      alt_url = ''u4''\<rparr>,
                    \<lparr>alt_id = ''SpaceCenter.Vessel.name'', alt_title = ''Vessel'',
                      alt_url = ''u5''\<rparr>,
                    \<lparr>alt_id = ''SpaceCenter.Vessel'', alt_title = ''Vessel'',
                      alt_url = ''u2''\<rparr>,
                    \<lparr>alt_id = ''SpaceCenter.Part.name'', alt_title = ''Part'',
                      alt_url = ''u1''\<rparr>], demo_state))"
    by code_simp
  show ?thesis
    using get_member_empty_member [OF demo_fresh m, of "''SpaceCenter''" "''Vessel''"] demo_fresh m c
    by simp
qed

subsection \<open>Lookup misses\<close>

lemma get_page_Inr:
  "ensure_fresh env st = (gets, Inr (status, st')) \<Longrightarrow>
   get_page env st slug_or_url =
     (case normalize_slug_or_url env slug_or_url of
        Inl e \<Rightarrow> (gets, Inl e)
      | Inr key \<Rightarrow> (gets, Inr (get_page_index st' slug_or_url key, st')))"
  by (simp add: get_page_def)

text \<open>
  C8. When \<^verbatim>\<open>ensure_fresh\<close> has returned: \<^verbatim>\<open>get_page\<close> of a key that is not in the page
  dictionary returns the reply with the error marker \<open>not_found\<close> and a message that quotes
  the argument; \<^verbatim>\<open>get_member\<close> returns such a reply when no id scores above 0;
  \<^verbatim>\<open>get_member\<close> raises nothing, and \<^verbatim>\<open>get_page\<close> raises only what the parsing of its
  argument as a URL raises, before any lookup.
\<close>

theorem lookup_miss_is_a_result:
  assumes "ensure_fresh env st = (gets, Inr (status, st'))"
  shows "(\<forall>key. normalize_slug_or_url env slug_or_url = Inr key \<and> dict_get (pages st') key = None
            \<longrightarrow> get_page env st slug_or_url =
                  (gets, Inr (Page_not_found ''not_found''
                                (''No page found for '' @ [CHR 0x27] @ slug_or_url @ [CHR 0x27] @ ''.''),
                              st')))
       \<and> ((\<forall>(mid, entry) \<in> set (members st'). member_score service class_name member mid = 0)
            \<longrightarrow> get_member env st service class_name member =
                  (gets, Inr (Member_not_found ''not_found''
                                (''No API member matched '' @ service @ ''.'' @ class_name @ ''.''
                                   @ member),
                              st')))
       \<and> (\<forall>e. get_page env st slug_or_url = (gets, Inl e)
                \<longrightarrow> normalize_slug_or_url env slug_or_url = Inl e)
       \<and> (\<forall>e. get_member env st service class_name member \<noteq> (gets, Inl e))"
proof (intro conjI allI impI)
  fix key
  assume "normalize_slug_or_url env slug_or_url = Inr key \<and> dict_get (pages st') key = None"
  then show "get_page env st slug_or_url =
                  (gets, Inr (Page_not_found ''not_found''
                                (''No page found for '' @ [CHR 0x27] @ slug_or_url @ [CHR 0x27] @ ''.''),
                              st'))"
    by (simp add: get_page_Inr [OF assms] get_page_index_def)
next
  assume "\<forall>(mid, entry) \<in> set (members st'). member_score service class_name member mid = 0"
  then show "get_member env st service class_name member =
                  (gets, Inr (Member_not_found ''not_found''
                                (''No API member matched '' @ service @ ''.'' @ class_name @ ''.''
                                   @ member),
                              st'))"
    by (simp only: get_member_fresh [OF assms] get_member_index_not_found_eq)
next
  fix e
  assume "get_page env st slug_or_url = (gets, Inl e)"
  then show "normalize_slug_or_url env slug_or_url = Inl e"
    by (simp add: get_page_Inr [OF assms] split: sum.splits)
next
  fix e
  show "get_member env st service class_name member \<noteq> (gets, Inl e)"
    by (simp add: get_member_fresh [OF assms])
qed

theorem lookup_miss_is_a_result_witness:
  "ensure_fresh demo_env demo_state =
     ([], Inr (\<lparr>reply_status = ''ok'', reply_message = Index_is_fresh,
                 reply_indexed_at = Some 0\<rparr>, demo_state))
   \<and> normalize_slug_or_url demo_env ''/python/nope.html'' = Inr ''python/nope.html''
   \<and> dict_get (pages demo_state) ''python/nope.html'' = None
   \<and> get_page demo_env demo_state ''/python/nope.html'' =
       ([], Inr (Page_not_found ''not_found''
                   (''No page found for '' @ [CHR 0x27] @ ''/python/nope.html'' @ [CHR 0x27] @ ''.''),
                 demo_state))
   \<and> get_member demo_env demo_state ''A'' ''B'' ''zzz'' =
       ([], Inr (Member_not_found ''not_found'' ''No API member matched A.B.zzz'', demo_state))"
proof -
  have k: "normalize_slug_or_url demo_env ''/python/nope.html'' = Inr ''python/nope.html''"
    "dict_get (pages demo_state) ''python/nope.html'' = None"
    by code_simp+
  have z: "\<forall>(mid, entry) \<in> set (members demo_state). member_score ''A'' ''B'' ''zzz'' mid = 0"
    by code_simp
  show ?thesis
    using lookup_miss_is_a_result [OF demo_fresh, of "''/python/nope.html''" "''A''" "''B''" "''zzz''"]
      demo_fresh k z
    by simp
qed

subsection \<open>The URL normalizer\<close>


lemma of_char_lt: "of_char (c :: char) < (256 :: nat)"
  by (metis of_char_mod_256 mod_less_divisor zero_less_numeral)

lemma lower_char_idem: "lower_char (lower_char c) = lower_char c"
proof -
  have "(of_char c :: nat) < 256" by (rule of_char_lt)
  then show ?thesis
    by (auto simp: lower_char_def Let_def)
qed

lemma lower_idem: "lower (lower s) = lower s"
  by (simp add: lower_def lower_char_idem)










































lemma good_start_prefix: "good_start (p @ r) \<Longrightarrow> p \<noteq> [] \<Longrightarrow> good_start p"
  by (cases p) (auto simp: good_start_def)




















subsection \<open>The crawl: termination and fetches\<close>






lemma site_crawl: "crawl_loop site_env crawl_start = (None, site_final)"
  by code_simp

lemma site_crawl_docs: "crawl_docs site_env = (site_urls, Inr (site_pages, site_members))"
  by (simp only: crawl_docs_def site_crawl) (simp add: site_final_def)



text \<open>
  The claim as stated fails: the crawl can end with a frontier that is not empty, long before
  300 URLs are visited. On the site whose second page holds the link \<open>http://[\<close>, the
  \<^verbatim>\<open>ValueError\<close> of \<^verbatim>\<open>urljoin\<close> ends the crawl after two fetches, with the third page
  still in the frontier, and \<^verbatim>\<open>crawl_docs\<close> returns nothing.
\<close>

theorem crawl_value_error_counterexample:
  "crawl_loop broken_env crawl_start = (Some ValueError, broken_final)
   \<and> to_visit broken_final = [''https://krpc.github.io/krpc/python/b.html'']
   \<and> fetched broken_final =
       [''https://krpc.github.io/krpc/python.html'', ''https://krpc.github.io/krpc/python/a.html'']
   \<and> seen broken_final = fset_of_list (fetched broken_final)
   \<and> crawl_docs broken_env =
       ([''https://krpc.github.io/krpc/python.html'', ''https://krpc.github.io/krpc/python/a.html''],
        Inl ValueError)"
proof -
  have c: "crawl_loop broken_env crawl_start = (Some ValueError, broken_final)"
    by code_simp
  have d: "crawl_docs broken_env = (fetched broken_final, Inl ValueError)"
    by (simp only: crawl_docs_def c) simp
  from c d show ?thesis by (simp add: broken_final_def)
qed

subsection \<open>The crawl: the member map\<close>

lemma map_of_dict_set: "map_of (dict_set d k v) = (map_of d)(k \<mapsto> v)"
  by (induction d k v rule: dict_set.induct) auto

lemma write_all_Nil: "write_all d [] = d"
  by (simp add: write_all_def)

lemma write_all_Cons: "write_all d ((k, v) # ws) = write_all (dict_set d k v) ws"
  by (simp add: write_all_def)

lemma write_all_append: "write_all d (ws @ ws') = write_all (write_all d ws) ws'"
  by (simp add: write_all_def)

lemma write_all_distinct: "distinct (map fst d) \<Longrightarrow> distinct (map fst (write_all d ws))"
  by (induction ws arbitrary: d) (auto simp: write_all_Nil write_all_Cons dict_set_distinct)

lemma write_all_keys: "fst ` set (write_all d ws) = fst ` set d \<union> fst ` set ws"
proof (induction ws arbitrary: d)
  case Nil
  then show ?case by (simp add: write_all_Nil)
next
  case (Cons w ws)
  obtain k v where w: "w = (k, v)" by (cases w)
  have "fst ` set (dict_set d k v) = insert k (fst ` set d)"
    using dict_set_keys [of d k v] by simp
  with Cons [of "dict_set d k v"] w show ?case by (auto simp: write_all_Cons)
qed

lemma write_all_map_of: "map_of (write_all d ws) = map_of d ++ map_of (rev ws)"
proof (induction ws arbitrary: d)
  case Nil
  then show ?case by (simp add: write_all_Nil)
next
  case (Cons w ws)
  obtain k v where w: "w = (k, v)" by (cases w)
  have "map_of (write_all (dict_set d k v) ws) = (map_of d)(k \<mapsto> v) ++ map_of (rev ws)"
    by (simp only: Cons map_of_dict_set)
  also have "\<dots> = map_of d ++ ([k \<mapsto> v] ++ map_of (rev ws))"
    by (rule ext) (auto simp: map_add_def split: option.splits)
  finally show ?case using w by (simp add: write_all_Cons)
qed

lemma write_all_last:
  assumes "ws = ws1 @ (k, v) # ws2" and "k \<notin> fst ` set ws2"
  shows "map_of (write_all d ws) k = Some v"
proof -
  have "map_of (rev ws2) k = None" using assms(2) by (simp add: map_of_eq_None_iff)
  then have "map_of (rev ws) k = Some v"
    using assms(1) by (simp add: map_add_def)
  then show ?thesis by (simp add: write_all_map_of map_add_def)
qed

lemma add_members_writes:
  "add_members title url ds mbs = write_all mbs (page_writes title url ds)"
  by (induction title url ds mbs rule: add_members.induct)
     (simp_all add: page_writes_def write_all_Nil write_all_Cons Let_def)

lemma member_writes_snoc:
  "member_writes env (pgs @ [p]) =
     member_writes env pgs
       @ (case http_get env (page_url p) of
            None \<Rightarrow> []
          | Some sp \<Rightarrow> page_writes (page_title p) (page_url p) (dts sp))"
  by (simp add: member_writes_def)

lemma members_inv_visit:
  assumes "members_inv env s" and "visit env s url = (r, s')"
  shows "members_inv env s'"
proof (cases "http_get env url")
  case None
  with assms show ?thesis by (auto simp: visit_def Let_def members_inv_def)
next
  case (Some sp)
  show ?thesis
  proof (cases "page_to_slug env url")
    case (Inl e)
    with Some assms show ?thesis by (auto simp: visit_def Let_def members_inv_def)
  next
    case (Inr slug)
    define title where "title = (case title_text sp of None \<Rightarrow> slug
                                  | Some t \<Rightarrow> if t \<noteq> [] then strip t else slug)"
    define p where "p = \<lparr>page_url = url, page_slug = slug, page_title = title,
                          page_text = extract_text sp\<rparr>"
    from Some Inr assms(2) have "found_pages s' = found_pages s @ [p]"
      and "found_members s' = add_members title url (dts sp) (found_members s)"
      by (auto simp: visit_def Let_def p_def title_def split: sum.splits)
    moreover have "member_writes env (found_pages s @ [p]) =
        member_writes env (found_pages s) @ page_writes title url (dts sp)"
      using Some by (simp add: member_writes_snoc p_def)
    ultimately show ?thesis
      using assms(1) by (simp add: members_inv_def add_members_writes write_all_append)
  qed
qed

lemma crawl_loop_members:
  "members_inv env s \<Longrightarrow> crawl_loop env s = (err, s') \<Longrightarrow> members_inv env s'"
proof (induction env s arbitrary: err s' rule: crawl_loop.induct)
  case (1 env s)
  show ?case
  proof (cases "to_visit s \<noteq> [] \<and> fcard (seen s) < MAX_PAGES")
    case False
    with "1.prems" show ?thesis by (simp add: crawl_loop.simps [of env s])
  next
    case True
    let ?s0 = "s\<lparr>to_visit := tl (to_visit s)\<rparr>"
    have i0: "members_inv env ?s0" using "1.prems"(1) by (simp add: members_inv_def)
    show ?thesis
    proof (cases "normalize_url env (hd (to_visit s))")
      case (Inl e)
      with True "1.prems"(2) have "s' = ?s0" by (simp add: crawl_loop.simps [of env s])
      with i0 show ?thesis by simp
    next
      case (Inr url)
      show ?thesis
      proof (cases "url |\<in>| seen s")
        case in_seen: True
        with True Inr "1.prems"(2) have "crawl_loop env ?s0 = (err, s')"
          by (simp add: crawl_loop.simps [of env s])
        then show ?thesis by (rule "1.IH"(1) [OF True Inr in_seen i0])
      next
        case new: False
        obtain r s1 where v: "visit env ?s0 url = (r, s1)" by (cases "visit env ?s0 url")
        have i1: "members_inv env s1" by (rule members_inv_visit [OF i0 v])
        show ?thesis
        proof (cases r)
          case None
          with True Inr new v "1.prems"(2) have "crawl_loop env s1 = (err, s')"
            by (simp add: crawl_loop.simps [of env s])
          then show ?thesis
            by (rule "1.IH"(2) [OF True Inr new v [symmetric] None i1])
        next
          case (Some e)
          with True Inr new v "1.prems"(2) have "s' = s1"
            by (simp add: crawl_loop.simps [of env s])
          with i1 show ?thesis by simp
        qed
      qed
    qed
  qed
qed

lemma crawl_docs_members:
  assumes "crawl_docs env = (gets, Inr (pgs, mbs))"
  shows "mbs = write_all [] (member_writes env pgs)"
proof -
  obtain err s where c: "crawl_loop env crawl_start = (err, s)"
    by (cases "crawl_loop env crawl_start")
  have "members_inv env crawl_start"
    by (simp add: members_inv_def crawl_start_def member_writes_def write_all_Nil)
  from crawl_loop_members [OF this c] have "members_inv env s" .
  moreover from assms c have "pgs = found_pages s" "mbs = found_members s"
    by (auto simp: crawl_docs_def split: option.splits)
  ultimately show ?thesis by (simp add: members_inv_def)
qed

lemma member_writes_id:
  "(mid, entry) \<in> set (member_writes env pgs) \<Longrightarrow> map_of entry ''id'' = Some mid"
  by (auto simp: member_writes_def page_writes_def member_record_def split: option.splits)

text \<open>
  C10. The member map that \<^verbatim>\<open>crawl_docs\<close> returns has no id twice; its ids are those of
  the elements the crawl extracted; for every such id it holds the record of the element
  processed last among those that carry the id; and every record holds its own id.
\<close>

theorem crawl_members_last_wins:
  assumes "crawl_docs env = (gets, Inr (pgs, mbs))"
  shows "distinct (map fst mbs)
       \<and> fst ` set mbs = fst ` set (member_writes env pgs)
       \<and> (\<forall>ws1 mid entry ws2.
             member_writes env pgs = ws1 @ (mid, entry) # ws2 \<and> mid \<notin> fst ` set ws2
             \<longrightarrow> dict_get mbs mid = Some entry)
       \<and> (\<forall>(mid, entry) \<in> set mbs. map_of entry ''id'' = Some mid)"
proof -
  note m = crawl_docs_members [OF assms]
  have d: "distinct (map fst mbs)" unfolding m by (rule write_all_distinct) simp
  have k: "fst ` set mbs = fst ` set (member_writes env pgs)"
    unfolding m by (simp add: write_all_keys)
  have l: "dict_get mbs mid = Some entry"
    if "member_writes env pgs = ws1 @ (mid, entry) # ws2 \<and> mid \<notin> fst ` set ws2"
    for ws1 mid entry ws2
    unfolding m dict_get_def using that by (intro write_all_last [of _ ws1 mid entry ws2]) simp_all
  have i: "map_of entry ''id'' = Some mid" if "(mid, entry) \<in> set mbs" for mid entry
  proof -
    from that d have "map_of mbs mid = Some entry" by simp
    then have "map_of (rev (member_writes env pgs)) mid = Some entry"
      unfolding m by (simp add: write_all_map_of)
    then have "(mid, entry) \<in> set (member_writes env pgs)"
      by (auto dest: map_of_SomeD)
    then show ?thesis by (rule member_writes_id)
  qed
  from d k l i show ?thesis by blast
qed

text \<open>
  On the small site the id \<open>A.f\<close> is written twice, on the seed and on the second page; the
  map holds it once, with the record written second.
\<close>

theorem crawl_members_last_wins_witness:
  "crawl_docs site_env = (site_urls, Inr (site_pages, site_members))
   \<and> map fst (member_writes site_env site_pages) = [''A.f'', ''A.f'', ''A.g'']
   \<and> map fst site_members = [''A.f'', ''A.g'']
   \<and> dict_get site_members ''A.f'' = Some (snd (member_writes site_env site_pages ! 1))"
proof -
  have c: "map fst (member_writes site_env site_pages) = [''A.f'', ''A.f'', ''A.g'']"
    "map fst site_members = [''A.f'', ''A.g'']"
    "dict_get site_members ''A.f'' = Some (snd (member_writes site_env site_pages ! 1))"
    by code_simp+
  show ?thesis
    using crawl_members_last_wins [OF site_crawl_docs] site_crawl_docs c by simp
qed

subsection \<open>Reindexing a fresh index\<close>

text \<open>
  C6, as amended. When the page dictionary is not empty and the index was built at most 24
  hours before \<^verbatim>\<open>is_stale\<close> reads the clock, \<^verbatim>\<open>reindex(force=False)\<close> fetches nothing,
  leaves the state as it is and returns the status with the time of the last indexing.
\<close>

theorem reindex_fresh_noop:
  assumes "pages st \<noteq> []" and "indexed_at st = Some t" and "now_check env - t \<le> FRESH_WINDOW"
  shows "reindex env st False =
           ([], Inr (\<lparr>reply_status = ''ok'', reply_message = Index_already_fresh,
                       reply_indexed_at = Some t\<rparr>, st))"
  using assms by (simp add: reindex_def is_stale_def)

theorem reindex_fresh_noop_witness:
  "pages demo_state \<noteq> [] \<and> indexed_at demo_state = Some 0
   \<and> now_check demo_env - 0 \<le> FRESH_WINDOW
   \<and> reindex demo_env demo_state False =
       ([], Inr (\<lparr>reply_status = ''ok'', reply_message = Index_already_fresh,
                   reply_indexed_at = Some 0\<rparr>, demo_state))"
proof -
  have p: "pages demo_state \<noteq> []" by code_simp
  have i: "indexed_at demo_state = Some 0" by (simp add: demo_state_def)
  have w: "now_check demo_env - 0 \<le> FRESH_WINDOW" by (simp add: demo_env_def FRESH_WINDOW_def)
  show ?thesis
    using reindex_fresh_noop [OF p i w] p i w by simp
qed

text \<open>
  The claim as stated fails on a fresh index without pages: the guard of \<^verbatim>\<open>reindex\<close> also
  tests \<^verbatim>\<open>self.pages\<close>, so the index is crawled again (here one fetch, which fails) and
  its time stamp changes.
\<close>

theorem reindex_fresh_empty_counterexample:
  "indexed_at empty_state = Some 0
   \<and> now_check demo_env - 0 \<le> FRESH_WINDOW
   \<and> \<not> is_stale demo_env empty_state
   \<and> reindex demo_env empty_state False =
       ([''https://krpc.github.io/krpc/python.html''],
        Inr (\<lparr>reply_status = ''ok'', reply_message = Indexed 0 0,
               reply_indexed_at = Some 2000000\<rparr>,
             \<lparr>pages = [], members = [], indexed_at = Some 2000000,
               disk = Some ([], [], 2000000)\<rparr>))"
  by code_simp

end
